theory Spec2Isabelle
  imports Complex_Main
begin

section \<open>Arrays of the numerical runtime\<close>

text \<open>
  The finite-element classes compute on tensors of an array library. A one-dimensional
  tensor is a list, a two-dimensional tensor a list of rows. Floating-point entries are
  read as exact reals, so every statement below is one of exact arithmetic. Index
  tensors hold natural numbers (Python's negative indices are not used by the classes).
  The array library checks shapes at run time; the operations below are written for
  operands of matching shape, and \<open>wf_solid\<close> further down states the shapes of a
  problem's fields.
\<close>

type_synonym vec = "real list"
type_synonym mat = "real list list"

datatype error =
    ConfigError       \<comment> \<open>\<open>ValueError("Element type not supported.")\<close>\<close>
  | GeometryError     \<comment> \<open>\<open>Exception("Negative Jacobian. Check element numbering.")\<close>\<close>
  | NumericalError    \<comment> \<open>the dense solver's error on a singular matrix\<close>
  | AttributeError    \<comment> \<open>reading \<open>self.etype\<close> when no branch of the constructor set it\<close>
  | IndexError        \<comment> \<open>an index outside the indexed array\<close>

definition ncols :: "'a list list \<Rightarrow> nat" where
  "ncols M = (case M of [] \<Rightarrow> 0 | r # _ \<Rightarrow> length r)"

definition col :: "'a list list \<Rightarrow> nat \<Rightarrow> 'a list" where
  "col M j = map (\<lambda>r. r ! j) M"

definition zeros_vec :: "nat \<Rightarrow> vec" where
  "zeros_vec n = replicate n 0"

definition zeros_mat :: "nat \<Rightarrow> nat \<Rightarrow> mat" where
  "zeros_mat n m = replicate n (replicate m 0)"

definition dot :: "vec \<Rightarrow> vec \<Rightarrow> real" where
  "dot u v = sum_list (map2 (*) u v)"

text \<open>\<open>A @ v\<close> and \<open>A @ B\<close>.\<close>

definition matvec :: "mat \<Rightarrow> vec \<Rightarrow> vec" where
  "matvec A v = map (\<lambda>row. dot row v) A"

definition matmul :: "mat \<Rightarrow> mat \<Rightarrow> mat" where
  "matmul A M = map (\<lambda>row. map (\<lambda>j. dot row (col M j)) [0..<ncols M]) A"

text \<open>\<open>M.T\<close>.\<close>

definition mT :: "mat \<Rightarrow> mat" where
  "mT M = map (\<lambda>j. col M j) [0..<ncols M]"

text \<open>\<open>w * M\<close> and \<open>M * s\<close> for a scalar, and the elementwise sums and differences.\<close>

definition scal_mat :: "real \<Rightarrow> mat \<Rightarrow> mat" where
  "scal_mat w M = map (map (\<lambda>x. w * x)) M"

definition mat_scal :: "mat \<Rightarrow> real \<Rightarrow> mat" where
  "mat_scal M s = map (map (\<lambda>x. x * s)) M"

definition vec_scal :: "vec \<Rightarrow> real \<Rightarrow> vec" where
  "vec_scal v s = map (\<lambda>x. x * s) v"

definition vec_add :: "vec \<Rightarrow> vec \<Rightarrow> vec" where
  "vec_add u v = map2 (+) u v"

definition vec_sub :: "vec \<Rightarrow> vec \<Rightarrow> vec" where
  "vec_sub u v = map2 (-) u v"

definition mat_add :: "mat \<Rightarrow> mat \<Rightarrow> mat" where
  "mat_add A M = map2 vec_add A M"

text \<open>
  \<open>torch.linalg.det\<close> and \<open>torch.linalg.inv\<close>, on the 3 by 3 matrices the solid
  family applies them to (the Jacobian): cofactor expansion along the first row, and the
  adjugate divided by the determinant.
\<close>

definition linalg_det :: "mat \<Rightarrow> real" where
  "linalg_det M =
     M ! 0 ! 0 * (M ! 1 ! 1 * M ! 2 ! 2 - M ! 1 ! 2 * M ! 2 ! 1)
   - M ! 0 ! 1 * (M ! 1 ! 0 * M ! 2 ! 2 - M ! 1 ! 2 * M ! 2 ! 0)
   + M ! 0 ! 2 * (M ! 1 ! 0 * M ! 2 ! 1 - M ! 1 ! 1 * M ! 2 ! 0)"

definition linalg_inv :: "mat \<Rightarrow> mat" where
  "linalg_inv M = (let d = linalg_det M in
     [[(M ! 1 ! 1 * M ! 2 ! 2 - M ! 1 ! 2 * M ! 2 ! 1) / d,
       (M ! 0 ! 2 * M ! 2 ! 1 - M ! 0 ! 1 * M ! 2 ! 2) / d,
       (M ! 0 ! 1 * M ! 1 ! 2 - M ! 0 ! 2 * M ! 1 ! 1) / d],
      [(M ! 1 ! 2 * M ! 2 ! 0 - M ! 1 ! 0 * M ! 2 ! 2) / d,
       (M ! 0 ! 0 * M ! 2 ! 2 - M ! 0 ! 2 * M ! 2 ! 0) / d,
       (M ! 0 ! 2 * M ! 1 ! 0 - M ! 0 ! 0 * M ! 1 ! 2) / d],
      [(M ! 1 ! 0 * M ! 2 ! 1 - M ! 1 ! 1 * M ! 2 ! 0) / d,
       (M ! 0 ! 1 * M ! 2 ! 0 - M ! 0 ! 0 * M ! 2 ! 1) / d,
       (M ! 0 ! 0 * M ! 1 ! 1 - M ! 0 ! 1 * M ! 1 ! 0) / d]])"

subsection \<open>The dense direct solver\<close>

text \<open>
  \<open>torch.linalg.solve(A, b)\<close> returns the solution of \<open>A x = b\<close> and raises when
  \<open>A\<close> is not invertible. It is modelled by elimination with row exchange on the
  equations \<open>(row of A, entry of b)\<close>: a column in which no remaining equation has a
  nonzero coefficient ends the solve with \<open>None\<close>.
\<close>

type_synonym eqn = "vec \<times> real"

fun lead :: "vec \<Rightarrow> real" where
  "lead [] = 0"
| "lead (a # _) = a"

fun find_pivot :: "eqn list \<Rightarrow> (eqn \<times> eqn list) option" where
  "find_pivot [] = None"
| "find_pivot (r # rs) =
     (if lead (fst r) \<noteq> 0 then Some (r, rs)
      else (case find_pivot rs of None \<Rightarrow> None | Some (p, rest) \<Rightarrow> Some (p, r # rest)))"

definition eliminate :: "eqn \<Rightarrow> eqn \<Rightarrow> eqn" where
  "eliminate p r = (let m = lead (fst r) / lead (fst p) in
     (map2 (\<lambda>x y. x - m * y) (tl (fst r)) (tl (fst p)), snd r - m * snd p))"

fun gauss :: "nat \<Rightarrow> eqn list \<Rightarrow> vec option" where
  "gauss 0 rows = Some []"
| "gauss (Suc n) rows =
     (case find_pivot rows of
        None \<Rightarrow> None
      | Some (p, rest) \<Rightarrow>
          (case gauss n (map (eliminate p) rest) of
             None \<Rightarrow> None
           | Some xs \<Rightarrow> Some ((snd p - dot (tl (fst p)) xs) / lead (fst p) # xs)))"

definition linalg_solve :: "mat \<Rightarrow> vec \<Rightarrow> vec option" where
  "linalg_solve A b = gauss (length b) (zip A b)"

subsection \<open>Indexing with index tensors\<close>

text \<open>
  \<open>M[idx, :]\<close> and \<open>v[idx]\<close> gather rows or entries and raise IndexError on an
  index out of range. \<open>nonzero\<close> lists the positions of the true flags in order.
\<close>

definition take_rows :: "'a list \<Rightarrow> nat list \<Rightarrow> error + 'a list" where
  "take_rows M idx =
     (if list_all (\<lambda>i. i < length M) idx then Inr (map (\<lambda>i. M ! i) idx) else Inl IndexError)"

definition pick :: "'a list \<Rightarrow> nat list \<Rightarrow> 'a list" where
  "pick v idx = map (\<lambda>i. v ! i) idx"

definition nonzero :: "bool list \<Rightarrow> nat list" where
  "nonzero flags = filter (\<lambda>i. flags ! i) [0..<length flags]"

text \<open>
  \<open>v[X]\<close> for a two-dimensional index tensor \<open>X\<close>, and \<open>K[(X, Y)]\<close> for a pair of
  them: the results have the shape of \<open>X\<close>.
\<close>

definition index1 :: "vec \<Rightarrow> nat list list \<Rightarrow> error + mat" where
  "index1 v X =
     (if list_all (list_all (\<lambda>i. i < length v)) X then Inr (map (map (\<lambda>i. v ! i)) X)
      else Inl IndexError)"

definition index2 :: "mat \<Rightarrow> nat list list \<Rightarrow> nat list list \<Rightarrow> error + mat" where
  "index2 K X Y =
     (if list_all (\<lambda>(xs, ys). list_all (\<lambda>(r, c). r < length K \<and> c < ncols K) (zip xs ys)) (zip X Y)
      then Inr (map (\<lambda>(xs, ys). map (\<lambda>(r, c). K ! r ! c) (zip xs ys)) (zip X Y))
      else Inl IndexError)"

text \<open>
  The assignments \<open>v[X] = V\<close> and \<open>K[(X, Y)] = V\<close> store entry by entry, in row-major
  order of \<open>X\<close>; where two positions of the index tensors name the same entry the later
  store stays (the array library leaves that case open; elements with distinct nodes
  never produce it for \<open>K\<close>).
\<close>

definition index_put1 :: "vec \<Rightarrow> nat list list \<Rightarrow> mat \<Rightarrow> vec" where
  "index_put1 v X V =
     foldl (\<lambda>v' (i, x). v'[i := x]) v (concat (map (\<lambda>(xs, vs). zip xs vs) (zip X V)))"

definition index_put2 :: "mat \<Rightarrow> nat list list \<Rightarrow> nat list list \<Rightarrow> mat \<Rightarrow> mat" where
  "index_put2 K X Y V =
     foldl (\<lambda>K' ((r, c), x). K'[r := (K' ! r)[c := x]]) K
       (concat (map (\<lambda>((xs, ys), vs). zip (zip xs ys) vs) (zip (zip X Y) V)))"

text \<open>\<open>u[idx] = vals\<close> for a one-dimensional index tensor.\<close>

definition put :: "vec \<Rightarrow> nat list \<Rightarrow> vec \<Rightarrow> vec" where
  "put u idx vals = foldl (\<lambda>u' (i, x). u'[i := x]) u (zip idx vals)"

text \<open>\<open>v.reshape((-1, 3))\<close>.\<close>

definition reshape3 :: "vec \<Rightarrow> mat" where
  "reshape3 v = map (\<lambda>i. [v ! (3 * i), v ! (3 * i + 1), v ! (3 * i + 2)]) [0..<length v div 3]"

text \<open>
  \<open>torch.stack([a, b, c], dim=-1)\<close> of three vectors of one length: the matrix whose
  row \<open>n\<close> is \<open>[a[n], b[n], c[n]]\<close>. \<open>ravel\<close> is \<open>concat\<close>.
\<close>

definition stack3 :: "vec \<Rightarrow> vec \<Rightarrow> vec \<Rightarrow> mat" where
  "stack3 a b c = map (\<lambda>(x, y, z). [x, y, z]) (zip a (zip b c))"

text \<open>
  \<open>torch.meshgrid(x, y, indexing="xy")\<close>: two index tensors with one row per entry of
  \<open>y\<close> and one column per entry of \<open>x\<close>; the first repeats \<open>x\<close> in every row, the
  second holds \<open>y[a]\<close> throughout row \<open>a\<close>.
\<close>

definition meshgrid_xy :: "nat list \<Rightarrow> nat list \<Rightarrow> nat list list \<times> nat list list" where
  "meshgrid_xy x y = (map (\<lambda>_. x) y, map (\<lambda>v. map (\<lambda>_. v) x) y)"

section \<open>Element types\<close>

text \<open>
  The element classes (\<open>Bar1\<close>, \<open>Bar2\<close>, \<open>Tria1\<close>, \<open>Tria2\<close>, \<open>Quad1\<close>, \<open>Quad2\<close>,
  \<open>Tetra1\<close>, \<open>Hexa1\<close>) live in a module that is not among the sources. The problem
  classes use four members of an element object: its node count \<open>nodes\<close>, the gradient
  matrix \<open>B(q)\<close> of the shape functions at a reference point, and the quadrature rule
  \<open>iweights()\<close>, \<open>ipoints()\<close>. An element object is a record of these four, and the
  constructors below take the objects they would instantiate as parameters.
\<close>

record element_type =
  et_nodes :: nat
  et_B :: "vec \<Rightarrow> mat"
  et_iweights :: vec
  et_ipoints :: "vec list"

text \<open>
  Modelled from the spec: the object \<open>Tetra1()\<close> of the missing element module, a
  "3D tetrahedron, 4 nodes" with a "standard Gauss rule" (section 4.1): the linear
  tetrahedron on the reference vertices, whose shape functions
  \<open>1 - x - y - z, x, y, z\<close> have constant gradients, with the one-point rule of weight
  \<open>1/6\<close> at the centroid. It serves the concrete examples only.
\<close>

definition Tetra1 :: element_type where
  "Tetra1 = \<lparr> et_nodes = 4,
     et_B = (\<lambda>_. [[-1, 1, 0, 0], [-1, 0, 1, 0], [-1, 0, 0, 1]]),
     et_iweights = [1 / 6],
     et_ipoints = [[1 / 4, 1 / 4, 1 / 4]] \<rparr>"

section \<open>Construction and element-type dispatch\<close>

text \<open>
  \<open>Truss.__init__\<close> and \<open>Planar.__init__\<close> choose the element type from
  \<open>len(elements[0])\<close> and end the chain with \<open>raise ValueError\<close>. (Both first run the
  constructor of a base class that is not among the sources; the dispatch is modelled
  here.) An empty element list makes \<open>elements[0]\<close> raise IndexError.
\<close>

definition Truss_etype ::
  "element_type \<Rightarrow> element_type \<Rightarrow> nat list list \<Rightarrow> error + element_type" where
  "Truss_etype Bar1 Bar2 elements =
     (case elements of
        [] \<Rightarrow> Inl IndexError
      | e0 # _ \<Rightarrow>
          if length e0 = 2 then Inr Bar1
          else if length e0 = 3 then Inr Bar2
          else Inl ConfigError)"

definition Planar_etype ::
  "element_type \<Rightarrow> element_type \<Rightarrow> element_type \<Rightarrow> element_type \<Rightarrow> nat list list
     \<Rightarrow> error + element_type" where
  "Planar_etype Tria1 Quad1 Tria2 Quad2 elements =
     (case elements of
        [] \<Rightarrow> Inl IndexError
      | e0 # _ \<Rightarrow>
          if length e0 = 3 then Inr Tria1
          else if length e0 = 4 then Inr Quad1
          else if length e0 = 6 then Inr Tria2
          else if length e0 = 8 then Inr Quad2
          else Inl ConfigError)"

text \<open>
  The solid problem. \<open>etype\<close> is \<open>None\<close> when the constructor assigned no element type
  (its \<open>if\<close>/\<open>elif\<close> has no \<open>else\<close>); \<open>strains\<close> is \<open>None\<close> for the default argument.
\<close>

record solid =
  nodes :: mat
  n_dofs :: nat
  elements :: "nat list list"
  n_elem :: nat
  forces :: mat
  displacements :: mat
  constraints :: "bool list list"
  etype :: "element_type option"
  C :: mat
  strains :: "mat option"
  global_indices :: "(nat list list \<times> nat list list) list"

definition dof_indices :: "nat list \<Rightarrow> nat list" where
  "dof_indices element = concat (map (\<lambda>n. map (\<lambda>i. 3 * n + i) [0..<3]) element)"

definition Solid_init ::
  "element_type \<Rightarrow> element_type \<Rightarrow> mat \<Rightarrow> nat list list \<Rightarrow> mat \<Rightarrow> mat \<Rightarrow> bool list list \<Rightarrow> mat
     \<Rightarrow> mat option \<Rightarrow> error + solid" where
  "Solid_init Hexa1 Tetra1' nds els fs ds cs Cm strs =
     (case els of
        [] \<Rightarrow> Inl IndexError
      | e0 # _ \<Rightarrow>
          Inr \<lparr> nodes = nds,
                n_dofs = length (concat nds),
                elements = els,
                n_elem = length els,
                forces = fs,
                displacements = ds,
                constraints = cs,
                etype = (if length e0 = 8 then Some Hexa1
                         else if length e0 = 4 then Some Tetra1'
                         else None),
                C = Cm,
                strains = strs,
                global_indices =
                  map (\<lambda>element. meshgrid_xy (dof_indices element) (dof_indices element)) els \<rparr>)"

section \<open>The solid family\<close>

subsection \<open>Volumes\<close>

definition quadrature :: "element_type \<Rightarrow> (real \<times> vec) list" where
  "quadrature et = zip (et_iweights et) (et_ipoints et)"

fun volumes_loop :: "solid \<Rightarrow> nat \<Rightarrow> nat list list \<Rightarrow> vec \<Rightarrow> error + vec" where
  "volumes_loop p j [] volumes = Inr volumes"
| "volumes_loop p j (element # rest) volumes =
     (case take_rows (nodes p) element of
        Inl e \<Rightarrow> Inl e
      | Inr nds \<Rightarrow>
          (case etype p of
             None \<Rightarrow> Inl AttributeError
           | Some et \<Rightarrow>
               let volume =
                 foldl (\<lambda>volume (w, q). volume + w * linalg_det (matmul (et_B et q) nds)) 0
                   (quadrature et)
               in if j < length volumes then volumes_loop p (Suc j) rest (volumes[j := volume])
                  else Inl IndexError))"

definition Solid_volumes :: "solid \<Rightarrow> error + vec" where
  "Solid_volumes p = volumes_loop p 0 (elements p) (zeros_vec (n_elem p))"

subsection \<open>Jacobian, strain operator, element stiffness and element force\<close>

definition Solid_J :: "solid \<Rightarrow> vec \<Rightarrow> mat \<Rightarrow> error + (mat \<times> real)" where
  "Solid_J p q nds =
     (case etype p of
        None \<Rightarrow> Inl AttributeError
      | Some et \<Rightarrow>
          let J = matmul (et_B et q) nds; detJ = linalg_det J
          in if detJ \<le> 0 then Inl GeometryError else Inr (J, detJ))"

definition Solid_D :: "solid \<Rightarrow> mat \<Rightarrow> error + mat" where
  "Solid_D p Bm =
     (case etype p of
        None \<Rightarrow> Inl AttributeError
      | Some et \<Rightarrow>
          let zeros = zeros_vec (et_nodes et);
              D0 = concat (stack3 (Bm ! 0) zeros zeros);
              D1 = concat (stack3 zeros (Bm ! 1) zeros);
              D2 = concat (stack3 zeros zeros (Bm ! 2));
              D3 = concat (stack3 zeros (Bm ! 2) (Bm ! 1));
              D4 = concat (stack3 (Bm ! 2) zeros (Bm ! 0));
              D5 = concat (stack3 (Bm ! 1) (Bm ! 0) zeros)
          in Inr [D0, D1, D2, D3, D4, D5])"

fun k_loop :: "solid \<Rightarrow> mat \<Rightarrow> (real \<times> vec) list \<Rightarrow> mat \<Rightarrow> error + mat" where
  "k_loop p nds [] k = Inr k"
| "k_loop p nds ((w, q) # wqs) k =
     (case Solid_J p q nds of
        Inl e \<Rightarrow> Inl e
      | Inr (J, detJ) \<Rightarrow>
          (case etype p of
             None \<Rightarrow> Inl AttributeError
           | Some et \<Rightarrow>
               (case Solid_D p (matmul (linalg_inv J) (et_B et q)) of
                  Inl e \<Rightarrow> Inl e
                | Inr D \<Rightarrow>
                    k_loop p nds wqs
                      (mat_add k (mat_scal (matmul (matmul (scal_mat w (mT D)) (C p)) D) detJ)))))"

definition Solid_k :: "solid \<Rightarrow> nat \<Rightarrow> error + mat" where
  "Solid_k p j =
     (if length (elements p) \<le> j then Inl IndexError
      else case take_rows (nodes p) (elements p ! j) of
        Inl e \<Rightarrow> Inl e
      | Inr nds \<Rightarrow>
          (case etype p of
             None \<Rightarrow> Inl AttributeError
           | Some et \<Rightarrow>
               k_loop p nds (quadrature et) (zeros_mat (3 * et_nodes et) (3 * et_nodes et))))"

fun f_loop :: "solid \<Rightarrow> mat \<Rightarrow> vec \<Rightarrow> (real \<times> vec) list \<Rightarrow> vec \<Rightarrow> error + vec" where
  "f_loop p nds epsilon [] f = Inr f"
| "f_loop p nds epsilon ((w, q) # wqs) f =
     (case Solid_J p q nds of
        Inl e \<Rightarrow> Inl e
      | Inr (J, detJ) \<Rightarrow>
          (case etype p of
             None \<Rightarrow> Inl AttributeError
           | Some et \<Rightarrow>
               (case Solid_D p (matmul (linalg_inv J) (et_B et q)) of
                  Inl e \<Rightarrow> Inl e
                | Inr D \<Rightarrow>
                    f_loop p nds epsilon wqs
                      (vec_add f
                         (vec_scal (matvec (matmul (scal_mat w (mT D)) (C p)) epsilon) detJ)))))"

definition Solid_f :: "solid \<Rightarrow> nat \<Rightarrow> vec \<Rightarrow> error + vec" where
  "Solid_f p j epsilon =
     (if length (elements p) \<le> j then Inl IndexError
      else case take_rows (nodes p) (elements p ! j) of
        Inl e \<Rightarrow> Inl e
      | Inr nds \<Rightarrow>
          (case etype p of
             None \<Rightarrow> Inl AttributeError
           | Some et \<Rightarrow> f_loop p nds epsilon (quadrature et) (zeros_vec (3 * et_nodes et))))"

subsection \<open>Assembly\<close>

text \<open>
  \<open>K[self.global_indices[j]] += self.k(j)\<close> reads \<open>K\<close> at the index pair, then
  evaluates \<open>self.k(j)\<close>, adds, and stores at the index pair.
\<close>

fun stiffness_loop :: "solid \<Rightarrow> nat list \<Rightarrow> mat \<Rightarrow> error + mat" where
  "stiffness_loop p [] K = Inr K"
| "stiffness_loop p (j # js) K =
     (if length (global_indices p) \<le> j then Inl IndexError
      else case global_indices p ! j of (X, Y) \<Rightarrow>
        (case index2 K X Y of
           Inl e \<Rightarrow> Inl e
         | Inr Kg \<Rightarrow>
             (case Solid_k p j of
                Inl e \<Rightarrow> Inl e
              | Inr k \<Rightarrow> stiffness_loop p js (index_put2 K X Y (mat_add Kg k)))))"

definition Solid_stiffness :: "solid \<Rightarrow> error + mat" where
  "Solid_stiffness p =
     stiffness_loop p [0..<length (elements p)] (zeros_mat (n_dofs p) (n_dofs p))"

text \<open>
  \<open>F[self.global_indices[j][0]] += self.f(j, eps)\<close>: the element force vector is
  broadcast over the rows of the gathered matrix.
\<close>

fun inelastic_loop :: "solid \<Rightarrow> (nat \<times> vec) list \<Rightarrow> vec \<Rightarrow> error + vec" where
  "inelastic_loop p [] F = Inr F"
| "inelastic_loop p ((j, eps) # rest) F =
     (if length (global_indices p) \<le> j then Inl IndexError
      else case index1 F (fst (global_indices p ! j)) of
        Inl e \<Rightarrow> Inl e
      | Inr Fg \<Rightarrow>
          (case Solid_f p j eps of
             Inl e \<Rightarrow> Inl e
           | Inr fj \<Rightarrow>
               inelastic_loop p rest
                 (index_put1 F (fst (global_indices p ! j)) (map (\<lambda>row. vec_add row fj) Fg))))"

definition inelastic_forces :: "solid \<Rightarrow> error + vec" where
  "inelastic_forces p =
     (case strains p of
        None \<Rightarrow> Inr (zeros_vec (n_dofs p))
      | Some ss \<Rightarrow> inelastic_loop p (zip [0..<length ss] ss) (zeros_vec (n_dofs p)))"

subsection \<open>Boundary reduction and solve\<close>

definition con_dofs :: "solid \<Rightarrow> nat list" where
  "con_dofs p = nonzero (concat (constraints p))"

definition uncon_dofs :: "solid \<Rightarrow> nat list" where
  "uncon_dofs p = nonzero (map Not (concat (constraints p)))"

definition reduced_stiffness :: "solid \<Rightarrow> mat \<Rightarrow> mat" where
  "reduced_stiffness p K = map (\<lambda>row. pick row (uncon_dofs p)) (pick K (uncon_dofs p))"

definition reduced_load :: "solid \<Rightarrow> mat \<Rightarrow> vec \<Rightarrow> vec" where
  "reduced_load p K F =
     (let f_d = matvec (map (\<lambda>row. pick row (con_dofs p)) K)
                  (pick (concat (displacements p)) (con_dofs p))
      in pick (vec_add (vec_sub (concat (forces p)) f_d) F) (uncon_dofs p))"

definition Solid_solve :: "solid \<Rightarrow> error + (mat \<times> mat)" where
  "Solid_solve p =
     (case Solid_stiffness p of
        Inl e \<Rightarrow> Inl e
      | Inr K \<Rightarrow>
          (case inelastic_forces p of
             Inl e \<Rightarrow> Inl e
           | Inr F \<Rightarrow>
               (case linalg_solve (reduced_stiffness p K) (reduced_load p K F) of
                  None \<Rightarrow> Inl NumericalError
                | Some u_red \<Rightarrow>
                    let u = put (concat (displacements p)) (uncon_dofs p) u_red;
                        f = matvec K u
                    in Inr (reshape3 u, reshape3 f))))"

section \<open>Shapes and example data\<close>

text \<open>
  The shapes of the interface (section 6 of the specification): an \<open>N\<close> by 3 node
  array; force, displacement and constraint arrays of that shape; a 6 by 6 constitutive
  tensor; optional strains with six components per element. The elements of a problem
  list as many nodes as the element type has, each node once and each within the node
  array, and the derived fields are the ones the constructor computes.
\<close>

definition is_mat :: "nat \<Rightarrow> nat \<Rightarrow> 'a list list \<Rightarrow> bool" where
  "is_mat n m M = (length M = n \<and> list_all (\<lambda>r. length r = m) M)"

definition wf_etype :: "element_type \<Rightarrow> bool" where
  "wf_etype et =
     (0 < et_nodes et \<and> list_all (\<lambda>q. is_mat 3 (et_nodes et) (et_B et q)) (et_ipoints et))"

definition wf_element :: "solid \<Rightarrow> element_type \<Rightarrow> nat list \<Rightarrow> bool" where
  "wf_element p et element =
     (length element = et_nodes et \<and> distinct element \<and>
      list_all (\<lambda>i. i < length (nodes p)) element)"

definition wf_solid :: "solid \<Rightarrow> bool" where
  "wf_solid p =
     (case etype p of
        None \<Rightarrow> False
      | Some et \<Rightarrow>
          wf_etype et \<and>
          is_mat (length (nodes p)) 3 (nodes p) \<and>
          n_dofs p = 3 * length (nodes p) \<and>
          elements p \<noteq> [] \<and>
          n_elem p = length (elements p) \<and>
          list_all (wf_element p et) (elements p) \<and>
          is_mat (length (nodes p)) 3 (forces p) \<and>
          is_mat (length (nodes p)) 3 (displacements p) \<and>
          is_mat (length (nodes p)) 3 (constraints p) \<and>
          is_mat 6 6 (C p) \<and>
          (case strains p of
             None \<Rightarrow> True
           | Some ss \<Rightarrow> length ss \<le> length (elements p) \<and> list_all (\<lambda>eps. length eps = 6) ss) \<and>
          global_indices p =
            map (\<lambda>element. meshgrid_xy (dof_indices element) (dof_indices element)) (elements p))"

text \<open>
  The unit tetrahedron with an isotropic material (Young's modulus 1, Poisson ratio 0),
  free of load, strain and constraints; the variants used below change single fields.
\<close>

definition ex_nodes :: mat where
  "ex_nodes = [[0, 0, 0], [1, 0, 0], [0, 1, 0], [0, 0, 1]]"

definition ex_C :: mat where
  "ex_C = [[1, 0, 0, 0, 0, 0], [0, 1, 0, 0, 0, 0], [0, 0, 1, 0, 0, 0],
           [0, 0, 0, 1 / 2, 0, 0], [0, 0, 0, 0, 1 / 2, 0], [0, 0, 0, 0, 0, 1 / 2]]"

definition ex_zero :: mat where
  "ex_zero = [[0, 0, 0], [0, 0, 0], [0, 0, 0], [0, 0, 0]]"

definition ex_free :: "bool list list" where
  "ex_free = [[False, False, False], [False, False, False], [False, False, False],
              [False, False, False]]"

definition ex_held :: "bool list list" where
  "ex_held = [[True, True, True], [False, True, True], [False, False, True],
              [False, False, False]]"

definition ex_solid :: solid where
  "ex_solid = \<lparr> nodes = ex_nodes, n_dofs = 12, elements = [[0, 1, 2, 3]], n_elem = 1,
     forces = ex_zero, displacements = ex_zero, constraints = ex_free,
     etype = Some Tetra1, C = ex_C, strains = None,
     global_indices = [meshgrid_xy [0..<12] [0..<12]] \<rparr>"

text \<open>
  The words of the claims about geometry: the coordinates of the nodes of element \<open>j\<close>,
  the determinant of the Jacobian \<open>B(q) @ nodes\<close> at a reference point, and the
  existence of a quadrature point of an element where it is not positive.
\<close>

definition element_nodes :: "solid \<Rightarrow> nat \<Rightarrow> mat" where
  "element_nodes p j = pick (nodes p) (elements p ! j)"

definition jacobian_det :: "element_type \<Rightarrow> mat \<Rightarrow> vec \<Rightarrow> real" where
  "jacobian_det et nds q = linalg_det (matmul (et_B et q) nds)"

definition nonpositive_jacobian :: "solid \<Rightarrow> element_type \<Rightarrow> nat \<Rightarrow> bool" where
  "nonpositive_jacobian p et j =
     list_ex (\<lambda>(w, q). jacobian_det et (element_nodes p j) q \<le> 0) (quadrature et)"

text \<open>The unit tetrahedron with two nodes exchanged in the element: inverted.\<close>

definition ex_inverted :: solid where
  "ex_inverted = ex_solid \<lparr> elements := [[0, 2, 1, 3]],
     global_indices := [meshgrid_xy (dof_indices [0, 2, 1, 3]) (dof_indices [0, 2, 1, 3])] \<rparr>"

definition positive_jacobians :: "solid \<Rightarrow> element_type \<Rightarrow> bool" where
  "positive_jacobians p et =
     list_all (\<lambda>j. \<not> nonpositive_jacobian p et j) [0..<length (elements p)]"

text \<open>
  The words of the claims about the solve: a matrix is nonsingular when only the zero
  vector is mapped to zero, and a problem is solvable when its stiffness assembles and the
  reduced stiffness \<open>K[uncon][:, uncon]\<close> is nonsingular.
\<close>

definition nonsingular :: "mat \<Rightarrow> bool" where
  "nonsingular A =
     (\<forall>x. length x = length A \<longrightarrow> matvec A x = zeros_vec (length A) \<longrightarrow>
          x = zeros_vec (length A))"

definition solvable :: "solid \<Rightarrow> bool" where
  "solvable p = (\<exists>K. Solid_stiffness p = Inr K \<and> nonsingular (reduced_stiffness p K))"

text \<open>Two tetrahedra sharing a face, on five nodes.\<close>

definition ex_pair :: solid where
  "ex_pair = \<lparr> nodes = [[0, 0, 0], [1, 0, 0], [0, 1, 0], [0, 0, 1], [1, 1, 1]], n_dofs = 15,
     elements = [[0, 1, 2, 3], [1, 2, 3, 4]], n_elem = 2,
     forces = [[0, 0, 0], [0, 0, 0], [0, 0, 0], [0, 0, 0], [0, 0, 0]],
     displacements = [[0, 0, 0], [0, 0, 0], [0, 0, 0], [0, 0, 0], [0, 0, 0]],
     constraints = [[False, False, False], [False, False, False], [False, False, False],
                    [False, False, False], [False, False, False]],
     etype = Some Tetra1, C = ex_C, strains = None,
     global_indices = [meshgrid_xy (dof_indices [0, 1, 2, 3]) (dof_indices [0, 1, 2, 3]),
                       meshgrid_xy (dof_indices [1, 2, 3, 4]) (dof_indices [1, 2, 3, 4])] \<rparr>"

text \<open>
  The unit tetrahedron held at six degrees of freedom (enough to remove the rigid-body
  motions): at rest; with a force at node 1 and a prescribed displacement of node 1 in
  \<open>y\<close>; and with a uniform inelastic strain and no force.
\<close>

definition ex_rest :: solid where
  "ex_rest = ex_solid \<lparr> constraints := ex_held \<rparr>"

definition ex_loaded :: solid where
  "ex_loaded = ex_solid \<lparr> forces := [[0, 0, 0], [1, 0, 0], [0, 0, 0], [0, 0, 0]],
     displacements := [[0, 0, 0], [0, 1 / 2, 0], [0, 0, 0], [0, 0, 0]],
     constraints := ex_held \<rparr>"

definition ex_thermal :: solid where
  "ex_thermal = ex_solid \<lparr> constraints := ex_held, strains := Some [[1, 0, 0, 0, 0, 0]] \<rparr>"

text \<open>The stiffness matrix of the unit tetrahedron with the material \<open>ex_C\<close>.\<close>

definition ex_K :: mat where
  "ex_K =
     [[1 / 3, 1 / 12, 1 / 12, - (1 / 6), - (1 / 12), - (1 / 12), - (1 / 12), 0, 0, - (1 / 12), 0, 0],
      [1 / 12, 1 / 3, 1 / 12, 0, - (1 / 12), 0, - (1 / 12), - (1 / 6), - (1 / 12), 0, - (1 / 12), 0],
      [1 / 12, 1 / 12, 1 / 3, 0, 0, - (1 / 12), 0, 0, - (1 / 12), - (1 / 12), - (1 / 12), - (1 / 6)],
      [- (1 / 6), 0, 0, 1 / 6, 0, 0, 0, 0, 0, 0, 0, 0],
      [- (1 / 12), - (1 / 12), 0, 0, 1 / 12, 0, 1 / 12, 0, 0, 0, 0, 0],
      [- (1 / 12), 0, - (1 / 12), 0, 0, 1 / 12, 0, 0, 0, 1 / 12, 0, 0],
      [- (1 / 12), - (1 / 12), 0, 0, 1 / 12, 0, 1 / 12, 0, 0, 0, 0, 0],
      [0, - (1 / 6), 0, 0, 0, 0, 0, 1 / 6, 0, 0, 0, 0],
      [0, - (1 / 12), - (1 / 12), 0, 0, 0, 0, 0, 1 / 12, 0, 1 / 12, 0],
      [- (1 / 12), 0, - (1 / 12), 0, 0, 1 / 12, 0, 0, 0, 1 / 12, 0, 0],
      [0, - (1 / 12), - (1 / 12), 0, 0, 0, 0, 0, 1 / 12, 0, 1 / 12, 0],
      [0, 0, - (1 / 6), 0, 0, 0, 0, 0, 0, 0, 0, 1 / 6]]"

section \<open>The solve on a store\<close>

text \<open>
  To state which tensors a call of \<open>solve\<close> writes, the tensors live in a store: a list of
  cells, the address of a tensor being its index. Allocation appends a cell and an
  in-place operation updates the cell of its target. A problem object holds the addresses
  of its tensor fields (its immutable fields, plain Python values, stay in the object), and
  \<open>load\<close> reads the problem of the previous sections out of the store.
\<close>

datatype tensor = Vec vec | Mat mat | Flags "bool list list" | Idx "nat list list"

type_synonym store = "tensor list"

fun the_vec :: "tensor \<Rightarrow> vec" where
  "the_vec (Vec v) = v"
| "the_vec _ = []"

fun the_mat :: "tensor \<Rightarrow> mat" where
  "the_mat (Mat m) = m"
| "the_mat _ = []"

fun the_flags :: "tensor \<Rightarrow> bool list list" where
  "the_flags (Flags b) = b"
| "the_flags _ = []"

fun the_idx :: "tensor \<Rightarrow> nat list list" where
  "the_idx (Idx i) = i"
| "the_idx _ = []"

record solid_obj =
  nodes_at :: nat
  obj_n_dofs :: nat
  obj_elements :: "nat list list"
  obj_n_elem :: nat
  forces_at :: nat
  displacements_at :: nat
  constraints_at :: nat
  obj_etype :: "element_type option"
  C_at :: nat
  strains_at :: "nat option"
  global_indices_at :: "(nat \<times> nat) list"

definition load :: "solid_obj \<Rightarrow> store \<Rightarrow> solid" where
  "load obj h =
     \<lparr> nodes = the_mat (h ! nodes_at obj),
       n_dofs = obj_n_dofs obj,
       elements = obj_elements obj,
       n_elem = obj_n_elem obj,
       forces = the_mat (h ! forces_at obj),
       displacements = the_mat (h ! displacements_at obj),
       constraints = the_flags (h ! constraints_at obj),
       etype = obj_etype obj,
       C = the_mat (h ! C_at obj),
       strains = map_option (\<lambda>a. the_mat (h ! a)) (strains_at obj),
       global_indices =
         map (\<lambda>(ax, ay). (the_idx (h ! ax), the_idx (h ! ay))) (global_indices_at obj) \<rparr>"

definition obj_addrs :: "solid_obj \<Rightarrow> nat list" where
  "obj_addrs obj =
     [nodes_at obj, forces_at obj, displacements_at obj, constraints_at obj, C_at obj]
     @ (case strains_at obj of None \<Rightarrow> [] | Some a \<Rightarrow> [a])
     @ concat (map (\<lambda>(ax, ay). [ax, ay]) (global_indices_at obj))"

text \<open>
  The fields of an object lie below an address when each of them does; an object is valid
  in a store that holds all its fields.
\<close>

definition fields_below :: "solid_obj \<Rightarrow> nat \<Rightarrow> bool" where
  "fields_below obj n = list_all (\<lambda>a. a < n) (obj_addrs obj)"

definition obj_valid :: "solid_obj \<Rightarrow> store \<Rightarrow> bool" where
  "obj_valid obj h = fields_below obj (length h)"

text \<open>
  The methods on the store. Every \<open>torch.zeros\<close> and the \<open>clone\<close> allocate a cell; the
  in-place updates \<open>k[:, :] += ...\<close>, \<open>f[:] += ...\<close>, \<open>K[idx] += ...\<close>, \<open>F[idx] += ...\<close> and
  \<open>u[uncon] = u_red\<close> write the cell of their target. All other intermediate results are
  new tensors that nothing writes, so they are passed as values. A method returns the
  address of its result with the store it leaves, also when it raises.
\<close>

fun k_loop_h ::
  "solid_obj \<Rightarrow> mat \<Rightarrow> (real \<times> vec) list \<Rightarrow> nat \<Rightarrow> store \<Rightarrow> (error + unit) \<times> store" where
  "k_loop_h obj nds [] k h = (Inr (), h)"
| "k_loop_h obj nds ((w, q) # wqs) k h =
     (case Solid_J (load obj h) q nds of
        Inl e \<Rightarrow> (Inl e, h)
      | Inr (J, detJ) \<Rightarrow>
          (case obj_etype obj of
             None \<Rightarrow> (Inl AttributeError, h)
           | Some et \<Rightarrow>
               (case Solid_D (load obj h) (matmul (linalg_inv J) (et_B et q)) of
                  Inl e \<Rightarrow> (Inl e, h)
                | Inr D \<Rightarrow>
                    k_loop_h obj nds wqs k
                      (h[k := Mat (mat_add (the_mat (h ! k))
                         (mat_scal (matmul (matmul (scal_mat w (mT D)) (C (load obj h))) D)
                            detJ))]))))"

definition Solid_k_h :: "solid_obj \<Rightarrow> nat \<Rightarrow> store \<Rightarrow> (error + nat) \<times> store" where
  "Solid_k_h obj j h =
     (if length (obj_elements obj) \<le> j then (Inl IndexError, h)
      else case take_rows (nodes (load obj h)) (obj_elements obj ! j) of
        Inl e \<Rightarrow> (Inl e, h)
      | Inr nds \<Rightarrow>
          (case obj_etype obj of
             None \<Rightarrow> (Inl AttributeError, h)
           | Some et \<Rightarrow>
               (case k_loop_h obj nds (quadrature et) (length h)
                       (h @ [Mat (zeros_mat (3 * et_nodes et) (3 * et_nodes et))]) of
                  (Inl e, h') \<Rightarrow> (Inl e, h')
                | (Inr _, h') \<Rightarrow> (Inr (length h), h'))))"

fun f_loop_h ::
  "solid_obj \<Rightarrow> mat \<Rightarrow> vec \<Rightarrow> (real \<times> vec) list \<Rightarrow> nat \<Rightarrow> store \<Rightarrow> (error + unit) \<times> store" where
  "f_loop_h obj nds epsilon [] f h = (Inr (), h)"
| "f_loop_h obj nds epsilon ((w, q) # wqs) f h =
     (case Solid_J (load obj h) q nds of
        Inl e \<Rightarrow> (Inl e, h)
      | Inr (J, detJ) \<Rightarrow>
          (case obj_etype obj of
             None \<Rightarrow> (Inl AttributeError, h)
           | Some et \<Rightarrow>
               (case Solid_D (load obj h) (matmul (linalg_inv J) (et_B et q)) of
                  Inl e \<Rightarrow> (Inl e, h)
                | Inr D \<Rightarrow>
                    f_loop_h obj nds epsilon wqs f
                      (h[f := Vec (vec_add (the_vec (h ! f))
                         (vec_scal (matvec (matmul (scal_mat w (mT D)) (C (load obj h))) epsilon)
                            detJ))]))))"

definition Solid_f_h :: "solid_obj \<Rightarrow> nat \<Rightarrow> vec \<Rightarrow> store \<Rightarrow> (error + nat) \<times> store" where
  "Solid_f_h obj j epsilon h =
     (if length (obj_elements obj) \<le> j then (Inl IndexError, h)
      else case take_rows (nodes (load obj h)) (obj_elements obj ! j) of
        Inl e \<Rightarrow> (Inl e, h)
      | Inr nds \<Rightarrow>
          (case obj_etype obj of
             None \<Rightarrow> (Inl AttributeError, h)
           | Some et \<Rightarrow>
               (case f_loop_h obj nds epsilon (quadrature et) (length h)
                       (h @ [Vec (zeros_vec (3 * et_nodes et))]) of
                  (Inl e, h') \<Rightarrow> (Inl e, h')
                | (Inr _, h') \<Rightarrow> (Inr (length h), h'))))"

fun stiffness_loop_h :: "solid_obj \<Rightarrow> nat list \<Rightarrow> nat \<Rightarrow> store \<Rightarrow> (error + unit) \<times> store" where
  "stiffness_loop_h obj [] K h = (Inr (), h)"
| "stiffness_loop_h obj (j # js) K h =
     (if length (global_indices_at obj) \<le> j then (Inl IndexError, h)
      else case global_indices (load obj h) ! j of (X, Y) \<Rightarrow>
        (case index2 (the_mat (h ! K)) X Y of
           Inl e \<Rightarrow> (Inl e, h)
         | Inr Kg \<Rightarrow>
             (case Solid_k_h obj j h of
                (Inl e, h') \<Rightarrow> (Inl e, h')
              | (Inr k, h') \<Rightarrow>
                  stiffness_loop_h obj js K
                    (h'[K := Mat (index_put2 (the_mat (h' ! K)) X Y
                                    (mat_add Kg (the_mat (h' ! k))))]))))"

definition Solid_stiffness_h :: "solid_obj \<Rightarrow> store \<Rightarrow> (error + nat) \<times> store" where
  "Solid_stiffness_h obj h =
     (case stiffness_loop_h obj [0..<length (obj_elements obj)] (length h)
             (h @ [Mat (zeros_mat (obj_n_dofs obj) (obj_n_dofs obj))]) of
        (Inl e, h') \<Rightarrow> (Inl e, h')
      | (Inr _, h') \<Rightarrow> (Inr (length h), h'))"

fun inelastic_loop_h ::
  "solid_obj \<Rightarrow> (nat \<times> vec) list \<Rightarrow> nat \<Rightarrow> store \<Rightarrow> (error + unit) \<times> store" where
  "inelastic_loop_h obj [] F h = (Inr (), h)"
| "inelastic_loop_h obj ((j, eps) # rest) F h =
     (if length (global_indices_at obj) \<le> j then (Inl IndexError, h)
      else case index1 (the_vec (h ! F)) (fst (global_indices (load obj h) ! j)) of
        Inl e \<Rightarrow> (Inl e, h)
      | Inr Fg \<Rightarrow>
          (case Solid_f_h obj j eps h of
             (Inl e, h') \<Rightarrow> (Inl e, h')
           | (Inr fj, h') \<Rightarrow>
               inelastic_loop_h obj rest F
                 (h'[F := Vec (index_put1 (the_vec (h' ! F)) (fst (global_indices (load obj h) ! j))
                                 (map (\<lambda>row. vec_add row (the_vec (h' ! fj))) Fg))])))"

text \<open>
  \<open>solve\<close>: the rows of \<open>self.strains\<close> that the loop enumerates are only read. The cell of
  \<open>u\<close> is the one \<open>self.displacements.clone()\<close> allocates, holding the data in the flat
  order of \<open>ravel()\<close>; \<open>u[uncon] = u_red\<close> writes that cell. The method returns the cells of
  \<open>u\<close> and \<open>f\<close>, which its caller sees reshaped to three columns.
\<close>

definition Solid_solve_h :: "solid_obj \<Rightarrow> store \<Rightarrow> (error + nat \<times> nat) \<times> store" where
  "Solid_solve_h obj h =
     (case Solid_stiffness_h obj h of
        (Inl e, h1) \<Rightarrow> (Inl e, h1)
      | (Inr K, h1) \<Rightarrow>
          (case (case strains (load obj h1) of
                   None \<Rightarrow> (Inr (), h1 @ [Vec (zeros_vec (obj_n_dofs obj))])
                 | Some ss \<Rightarrow>
                     inelastic_loop_h obj (zip [0..<length ss] ss) (length h1)
                       (h1 @ [Vec (zeros_vec (obj_n_dofs obj))])) of
             (Inl e, h2) \<Rightarrow> (Inl e, h2)
           | (Inr _, h2) \<Rightarrow>
               let F = length h1;
                   K_red = reduced_stiffness (load obj h2) (the_mat (h2 ! K));
                   f_red = reduced_load (load obj h2) (the_mat (h2 ! K)) (the_vec (h2 ! F))
               in (case linalg_solve K_red f_red of
                     None \<Rightarrow> (Inl NumericalError, h2)
                   | Some u_red \<Rightarrow>
                       let u = length h2;
                           h3 = h2 @ [Vec (concat (displacements (load obj h2)))];
                           h4 = h3[u := Vec (put (the_vec (h3 ! u)) (uncon_dofs (load obj h2))
                                              u_red)];
                           f = length h4;
                           h5 = h4 @ [Vec (matvec (the_mat (h4 ! K)) (the_vec (h4 ! u)))]
                       in (Inr (u, f), h5))))"

text \<open>
  A store \<open>h'\<close> preserves the first \<open>n\<close> cells of \<open>h\<close>: it is no shorter and agrees with
  \<open>h\<close> on them.
\<close>

definition preserved :: "nat \<Rightarrow> store \<Rightarrow> store \<Rightarrow> bool" where
  "preserved n h h' = (length h \<le> length h' \<and> take n h' = take n h)"

text \<open>
  The problem \<open>ex_loaded\<close> as an object in a store of seven cells: nodes, forces,
  displacements, constraints, constitutive tensor and the two index tensors of its element.
\<close>

definition ex_store :: store where
  "ex_store =
     [Mat ex_nodes,
      Mat [[0, 0, 0], [1, 0, 0], [0, 0, 0], [0, 0, 0]],
      Mat [[0, 0, 0], [0, 1 / 2, 0], [0, 0, 0], [0, 0, 0]],
      Flags ex_held,
      Mat ex_C,
      Idx (fst (meshgrid_xy [0..<12] [0..<12])),
      Idx (snd (meshgrid_xy [0..<12] [0..<12]))]"

definition ex_obj :: solid_obj where
  "ex_obj = \<lparr> nodes_at = 0, obj_n_dofs = 12, obj_elements = [[0, 1, 2, 3]], obj_n_elem = 1,
     forces_at = 1, displacements_at = 2, constraints_at = 3, obj_etype = Some Tetra1,
     C_at = 4, strains_at = None, global_indices_at = [(5, 6)] \<rparr>"

section \<open>Properties of the array operations\<close>

lemma nth_concat_fixed:
  "\<forall>xs \<in> set xss. length xs = k \<Longrightarrow> i < length xss \<Longrightarrow> j < k \<Longrightarrow>
   concat xss ! (i * k + j) = xss ! i ! j"
proof (induction xss arbitrary: i)
  case Nil
  then show ?case by simp
next
  case (Cons xs xss)
  show ?case
  proof (cases i)
    case 0
    with Cons.prems show ?thesis by (simp add: nth_append)
  next
    case (Suc i')
    with Cons.prems have "concat xss ! (i' * k + j) = xss ! i' ! j"
      by (intro Cons.IH) auto
    moreover have "length xs = k" using Cons.prems by simp
    ultimately show ?thesis using Suc by (simp add: nth_append add.assoc)
  qed
qed

lemma length_concat_fixed:
  "\<forall>xs \<in> set xss. length xs = k \<Longrightarrow> length (concat xss) = length xss * k"
  by (induction xss) auto

lemma length_stack3:
  "length (stack3 a b c) = min (length a) (min (length b) (length c))"
  by (simp add: stack3_def)

lemma stack3_rows: "\<forall>xs \<in> set (stack3 a b c). length xs = 3"
  by (auto simp: stack3_def)

lemma length_ravel_stack3:
  "length b = length a \<Longrightarrow> length c = length a \<Longrightarrow> length (concat (stack3 a b c)) = 3 * length a"
  using length_concat_fixed [OF stack3_rows, of a b c] by (simp add: length_stack3)

lemma nth_stack3:
  "n < length a \<Longrightarrow> length b = length a \<Longrightarrow> length c = length a \<Longrightarrow>
   stack3 a b c ! n = [a ! n, b ! n, c ! n]"
  by (simp add: stack3_def)

lemma nth_ravel_stack3:
  assumes "n < length a" "length b = length a" "length c = length a" "j < 3"
  shows "concat (stack3 a b c) ! (3 * n + j) = [a ! n, b ! n, c ! n] ! j"
proof -
  have "concat (stack3 a b c) ! (n * 3 + j) = stack3 a b c ! n ! j"
    using assms by (intro nth_concat_fixed stack3_rows) (simp_all add: length_stack3)
  then show ?thesis using assms by (simp add: nth_stack3 mult.commute)
qed

subsection \<open>The solver returns the solution, and only when it is unique\<close>

lemma dot_Nil [simp]: "dot [] v = 0" "dot u [] = 0"
  by (simp_all add: dot_def)

lemma dot_Cons [simp]: "dot (a # u) (x # v) = a * x + dot u v"
  by (simp add: dot_def)

lemma dot_elim:
  "length cs = length as \<Longrightarrow> length as = length xs \<Longrightarrow>
   dot (map2 (\<lambda>x y. x - m * y) cs as) xs = dot cs xs - m * dot as xs"
  by (induction cs as xs rule: list_induct3) (simp_all add: algebra_simps)

lemma find_pivot_Some:
  "find_pivot rows = Some (p, rest) \<Longrightarrow>
   lead (fst p) \<noteq> 0 \<and> set rows = insert p (set rest) \<and> length rows = Suc (length rest)"
  by (induction rows arbitrary: p rest) (auto split: if_splits option.splits)

lemma eliminate_row:
  assumes "fst p = a # as" "a \<noteq> 0" "length (fst r) = Suc (length xs)" "length as = length xs"
  shows "dot (fst (eliminate p r)) xs = snd (eliminate p r) \<longleftrightarrow>
         dot (fst r) ((snd p - dot as xs) / a # xs) = snd r"
proof -
  obtain c cs where r: "fst r = c # cs" using assms(3) by (cases "fst r") auto
  then have len: "length cs = length xs" using assms(3) by simp
  have e1: "fst (eliminate p r) = map2 (\<lambda>x y. x - c / a * y) cs as"
    and e2: "snd (eliminate p r) = snd r - c / a * snd p"
    by (simp_all add: eliminate_def Let_def assms(1) r)
  have "dot (map2 (\<lambda>x y. x - c / a * y) cs as) xs = dot cs xs - c / a * dot as xs"
    by (rule dot_elim) (simp_all add: len assms(4))
  then have l: "dot (fst (eliminate p r)) xs = dot cs xs - c / a * dot as xs"
    by (simp only: e1)
  have "(dot cs xs - c / a * dot as xs = snd r - c / a * snd p) \<longleftrightarrow>
        (c * ((snd p - dot as xs) / a) + dot cs xs = snd r)"
    using assms(2) by (simp add: field_simps)
  then show ?thesis by (simp only: l e2 r dot_Cons)
qed

lemma length_eliminate:
  "length (fst p) = Suc n \<Longrightarrow> length (fst r) = Suc n \<Longrightarrow> length (fst (eliminate p r)) = n"
  by (simp add: eliminate_def Let_def)

lemma gauss_length: "gauss n rows = Some xs \<Longrightarrow> length xs = n"
  by (induction n arbitrary: rows xs) (auto split: option.splits)

lemma gauss_sound:
  "gauss n rows = Some xs \<Longrightarrow> length rows = n \<Longrightarrow> \<forall>r \<in> set rows. length (fst r) = n \<Longrightarrow>
   r \<in> set rows \<Longrightarrow> dot (fst r) xs = snd r"
proof (induction n arbitrary: rows xs r)
  case 0
  then show ?case by simp
next
  case (Suc n)
  from Suc.prems(1) obtain p rest ys where
    fp: "find_pivot rows = Some (p, rest)" and
    g: "gauss n (map (eliminate p) rest) = Some ys" and
    xs: "xs = (snd p - dot (tl (fst p)) ys) / lead (fst p) # ys"
    by (auto split: option.splits)
  from find_pivot_Some [OF fp] have
    nz: "lead (fst p) \<noteq> 0" and rows: "set rows = insert p (set rest)" and
    len: "length rows = Suc (length rest)" by auto
  have lp: "length (fst p) = Suc n" using Suc.prems(3) rows by auto
  then obtain a as where p: "fst p = a # as" by (cases "fst p") auto
  have a: "a \<noteq> 0" using nz p by simp
  have las: "length as = n" using lp p by simp
  have lys: "length ys = n" using gauss_length [OF g] .
  have xs': "xs = (snd p - dot as ys) / a # ys" using xs p by simp
  show ?case
  proof (cases "r = p")
    case True
    then show ?thesis using a by (simp add: xs' p)
  next
    case False
    then have rin: "r \<in> set rest" using Suc.prems(4) rows by auto
    have lr: "length (fst r) = Suc n" using Suc.prems(3,4) by auto
    have "dot (fst (eliminate p r)) ys = snd (eliminate p r)"
    proof (rule Suc.IH [OF g])
      show "length (map (eliminate p) rest) = n" using len Suc.prems(2) by simp
      show "\<forall>r\<in>set (map (eliminate p) rest). length (fst r) = n"
        using Suc.prems(3) rows lp by (auto intro: length_eliminate)
      show "eliminate p r \<in> set (map (eliminate p) rest)" using rin by simp
    qed
    then show ?thesis
      using eliminate_row [OF p a, of r ys] lr las lys by (simp add: xs')
  qed
qed

lemma gauss_unique:
  "gauss n rows = Some xs \<Longrightarrow> \<forall>r \<in> set rows. length (fst r) = n \<Longrightarrow> length ys = n \<Longrightarrow>
   \<forall>r \<in> set rows. dot (fst r) ys = snd r \<Longrightarrow> ys = xs"
proof (induction n arbitrary: rows xs ys)
  case 0
  then show ?case by simp
next
  case (Suc n)
  from Suc.prems(1) obtain p rest zs where
    fp: "find_pivot rows = Some (p, rest)" and
    g: "gauss n (map (eliminate p) rest) = Some zs" and
    xs: "xs = (snd p - dot (tl (fst p)) zs) / lead (fst p) # zs"
    by (auto split: option.splits)
  from find_pivot_Some [OF fp] have
    nz: "lead (fst p) \<noteq> 0" and rows: "set rows = insert p (set rest)" by auto
  have lp: "length (fst p) = Suc n" using Suc.prems(2) rows by auto
  then obtain a as where p: "fst p = a # as" by (cases "fst p") auto
  have a: "a \<noteq> 0" using nz p by simp
  have las: "length as = n" using lp p by simp
  obtain y ys' where ys: "ys = y # ys'" and lys': "length ys' = n"
    using Suc.prems(3) by (cases ys) auto
  have peq: "a * y + dot as ys' = snd p"
    using Suc.prems(4) rows by (auto simp: p ys)
  then have y: "y = (snd p - dot as ys') / a" using a by (simp add: field_simps)
  have "ys' = zs"
  proof (rule Suc.IH [OF g])
    show "\<forall>r\<in>set (map (eliminate p) rest). length (fst r) = n"
      using Suc.prems(2) rows lp by (auto intro: length_eliminate)
    show "length ys' = n" by (rule lys')
    show "\<forall>r\<in>set (map (eliminate p) rest). dot (fst r) ys' = snd r"
    proof
      fix e assume "e \<in> set (map (eliminate p) rest)"
      then obtain r where r: "r \<in> set rest" and e: "e = eliminate p r" by auto
      have lr: "length (fst r) = Suc n" using Suc.prems(2) rows r by auto
      have "dot (fst r) ((snd p - dot as ys') / a # ys') = snd r"
        using Suc.prems(4) rows r y ys by auto
      then show "dot (fst e) ys' = snd e"
        using eliminate_row [OF p a, of r ys'] lr las lys' by (simp add: e)
    qed
  qed
  then show ?case using y xs p ys by simp
qed

section \<open>Construction\<close>

lemma Truss_etype_unsupported:
  "length e0 \<noteq> 2 \<Longrightarrow> length e0 \<noteq> 3 \<Longrightarrow> Truss_etype Bar1 Bar2 (e0 # els) = Inl ConfigError"
  by (simp add: Truss_etype_def)

lemma Planar_etype_unsupported:
  "length e0 \<notin> {3, 4, 6, 8} \<Longrightarrow>
   Planar_etype Tria1 Quad1 Tria2 Quad2 (e0 # els) = Inl ConfigError"
  by (simp add: Planar_etype_def)

lemma Solid_init_ex:
  "Solid_init Hexa1 Tetra1 ex_nodes [[0, 1, 2, 3]] ex_zero ex_zero ex_free ex_C None = Inr ex_solid"
  by (simp add: Solid_init_def ex_solid_def ex_nodes_def dof_indices_def upt_rec numeral_nat)

lemma wf_ex_solid: "wf_solid ex_solid"
  by (simp add: wf_solid_def ex_solid_def wf_etype_def Tetra1_def is_mat_def wf_element_def
      ex_nodes_def ex_zero_def ex_free_def ex_C_def dof_indices_def upt_rec numeral_nat)

text \<open>
  Claim C1 says that every family raises the configuration error when the first element
  has an unsupported node count, and that construction never succeeds then. The truss and
  planar dispatch do raise (the two lemmas above). \<open>Solid.__init__\<close> does not: for a
  first element of five nodes, whatever the other arguments, construction returns a
  problem whose element type was never assigned, after computing the global index maps.
\<close>

theorem Solid_init_arity5:
  "Solid_init Hexa1 Tetra1' nds [[0, 1, 2, 3, 4]] fs ds cs Cm strs =
     Inr \<lparr> nodes = nds, n_dofs = length (concat nds), elements = [[0, 1, 2, 3, 4]], n_elem = 1,
           forces = fs, displacements = ds, constraints = cs, etype = None, C = Cm,
           strains = strs,
           global_indices = [meshgrid_xy [0..<15] [0..<15]] \<rparr>"
  by (simp add: Solid_init_def dof_indices_def upt_rec numeral_nat)

section \<open>The strain operator\<close>

lemma Solid_D_rows:
  assumes "etype p = Some et" "is_mat 3 (et_nodes et) Bm"
  shows "\<exists>Dm. Solid_D p Bm = Inr Dm \<and> is_mat 6 (3 * et_nodes et) Dm"
  using assms
  by (simp add: Solid_D_def Let_def is_mat_def zeros_vec_def length_ravel_stack3 list_all_length
      numeral_3_eq_3 less_Suc_eq all_conj_distrib)

lemma ravel_stack3_entries:
  assumes "n < length a" "length b = length a" "length c = length a"
  shows "concat (stack3 a b c) ! (3 * n) = a ! n"
    and "concat (stack3 a b c) ! Suc (3 * n) = b ! n"
    and "concat (stack3 a b c) ! Suc (Suc (3 * n)) = c ! n"
  using nth_ravel_stack3 [OF assms, of 0] nth_ravel_stack3 [OF assms, of 1]
    nth_ravel_stack3 [OF assms, of 2]
  by simp_all

text \<open>
  Claim C7: for Cartesian gradients \<open>B\<close> of shape 3 by node count, \<open>D(B)\<close> has six
  rows of \<open>3 * nodes\<close> columns. For each node \<open>n\<close>, row 0 holds \<open>B[0,n]\<close> at column
  \<open>3n\<close>, row 1 holds \<open>B[1,n]\<close> at \<open>3n+1\<close>, row 2 holds \<open>B[2,n]\<close> at \<open>3n+2\<close>, row 3
  holds \<open>B[2,n]\<close> at \<open>3n+1\<close> and \<open>B[1,n]\<close> at \<open>3n+2\<close>, row 4 holds \<open>B[2,n]\<close> at
  \<open>3n\<close> and \<open>B[0,n]\<close> at \<open>3n+2\<close>, row 5 holds \<open>B[1,n]\<close> at \<open>3n\<close> and \<open>B[0,n]\<close> at
  \<open>3n+1\<close>; every other entry is zero.
\<close>

theorem Solid_D_layout:
  assumes "etype p = Some et" and "is_mat 3 (et_nodes et) Bm"
  shows "\<exists>Dm. Solid_D p Bm = Inr Dm \<and> is_mat 6 (3 * et_nodes et) Dm \<and>
    (\<forall>n < et_nodes et.
       Dm ! 0 ! (3 * n) = Bm ! 0 ! n \<and> Dm ! 0 ! (3 * n + 1) = 0 \<and> Dm ! 0 ! (3 * n + 2) = 0 \<and>
       Dm ! 1 ! (3 * n) = 0 \<and> Dm ! 1 ! (3 * n + 1) = Bm ! 1 ! n \<and> Dm ! 1 ! (3 * n + 2) = 0 \<and>
       Dm ! 2 ! (3 * n) = 0 \<and> Dm ! 2 ! (3 * n + 1) = 0 \<and> Dm ! 2 ! (3 * n + 2) = Bm ! 2 ! n \<and>
       Dm ! 3 ! (3 * n) = 0 \<and> Dm ! 3 ! (3 * n + 1) = Bm ! 2 ! n \<and>
         Dm ! 3 ! (3 * n + 2) = Bm ! 1 ! n \<and>
       Dm ! 4 ! (3 * n) = Bm ! 2 ! n \<and> Dm ! 4 ! (3 * n + 1) = 0 \<and>
         Dm ! 4 ! (3 * n + 2) = Bm ! 0 ! n \<and>
       Dm ! 5 ! (3 * n) = Bm ! 1 ! n \<and> Dm ! 5 ! (3 * n + 1) = Bm ! 0 ! n \<and>
         Dm ! 5 ! (3 * n + 2) = 0)"
proof -
  let ?N = "et_nodes et"
  let ?z = "zeros_vec ?N"
  have lz: "length ?z = ?N" by (simp add: zeros_vec_def)
  have l0: "length (Bm ! 0) = ?N" and l1: "length (Bm ! Suc 0) = ?N" and l2: "length (Bm ! 2) = ?N"
    using assms(2) by (simp_all add: is_mat_def list_all_length)
  have z: "\<And>n. n < ?N \<Longrightarrow> ?z ! n = 0" by (simp add: zeros_vec_def)
  from Solid_D_rows [OF assms] obtain Dm where
    Dm: "Solid_D p Bm = Inr Dm" and shape: "is_mat 6 (3 * ?N) Dm" by blast
  have rows: "Dm = [concat (stack3 (Bm ! 0) ?z ?z), concat (stack3 ?z (Bm ! 1) ?z),
      concat (stack3 ?z ?z (Bm ! 2)), concat (stack3 ?z (Bm ! 2) (Bm ! 1)),
      concat (stack3 (Bm ! 2) ?z (Bm ! 0)), concat (stack3 (Bm ! 1) (Bm ! 0) ?z)]"
    using Dm assms(1) by (simp add: Solid_D_def Let_def)
  have "\<forall>n < ?N.
       Dm ! 0 ! (3 * n) = Bm ! 0 ! n \<and> Dm ! 0 ! (3 * n + 1) = 0 \<and> Dm ! 0 ! (3 * n + 2) = 0 \<and>
       Dm ! 1 ! (3 * n) = 0 \<and> Dm ! 1 ! (3 * n + 1) = Bm ! 1 ! n \<and> Dm ! 1 ! (3 * n + 2) = 0 \<and>
       Dm ! 2 ! (3 * n) = 0 \<and> Dm ! 2 ! (3 * n + 1) = 0 \<and> Dm ! 2 ! (3 * n + 2) = Bm ! 2 ! n \<and>
       Dm ! 3 ! (3 * n) = 0 \<and> Dm ! 3 ! (3 * n + 1) = Bm ! 2 ! n \<and>
         Dm ! 3 ! (3 * n + 2) = Bm ! 1 ! n \<and>
       Dm ! 4 ! (3 * n) = Bm ! 2 ! n \<and> Dm ! 4 ! (3 * n + 1) = 0 \<and>
         Dm ! 4 ! (3 * n + 2) = Bm ! 0 ! n \<and>
       Dm ! 5 ! (3 * n) = Bm ! 1 ! n \<and> Dm ! 5 ! (3 * n + 1) = Bm ! 0 ! n \<and>
         Dm ! 5 ! (3 * n + 2) = 0"
  proof (intro allI impI)
    fix n assume n: "n < ?N"
    show "Dm ! 0 ! (3 * n) = Bm ! 0 ! n \<and> Dm ! 0 ! (3 * n + 1) = 0 \<and> Dm ! 0 ! (3 * n + 2) = 0 \<and>
       Dm ! 1 ! (3 * n) = 0 \<and> Dm ! 1 ! (3 * n + 1) = Bm ! 1 ! n \<and> Dm ! 1 ! (3 * n + 2) = 0 \<and>
       Dm ! 2 ! (3 * n) = 0 \<and> Dm ! 2 ! (3 * n + 1) = 0 \<and> Dm ! 2 ! (3 * n + 2) = Bm ! 2 ! n \<and>
       Dm ! 3 ! (3 * n) = 0 \<and> Dm ! 3 ! (3 * n + 1) = Bm ! 2 ! n \<and>
         Dm ! 3 ! (3 * n + 2) = Bm ! 1 ! n \<and>
       Dm ! 4 ! (3 * n) = Bm ! 2 ! n \<and> Dm ! 4 ! (3 * n + 1) = 0 \<and>
         Dm ! 4 ! (3 * n + 2) = Bm ! 0 ! n \<and>
       Dm ! 5 ! (3 * n) = Bm ! 1 ! n \<and> Dm ! 5 ! (3 * n + 1) = Bm ! 0 ! n \<and>
         Dm ! 5 ! (3 * n + 2) = 0"
      using n z [OF n] by (simp add: rows ravel_stack3_entries lz l0 l1 l2)
  qed
  with Dm shape show ?thesis by blast
qed

theorem Solid_D_layout_witness:
  "etype ex_solid = Some Tetra1 \<and> is_mat 3 (et_nodes Tetra1) (et_B Tetra1 []) \<and>
   (\<exists>Dm. Solid_D ex_solid (et_B Tetra1 []) = Inr Dm \<and> is_mat 6 12 Dm \<and>
      Dm ! 3 ! 7 = 0 \<and> Dm ! 3 ! 8 = 1 \<and> Dm ! 5 ! 0 = -1 \<and> Dm ! 5 ! 1 = -1 \<and> Dm ! 5 ! 2 = 0)"
proof -
  have e: "etype ex_solid = Some Tetra1" by (simp add: ex_solid_def)
  have b: "is_mat 3 (et_nodes Tetra1) (et_B Tetra1 [])" by (simp add: Tetra1_def is_mat_def)
  from Solid_D_layout [OF e b] obtain Dm where
    Dm: "Solid_D ex_solid (et_B Tetra1 []) = Inr Dm" and shape: "is_mat 6 (3 * et_nodes Tetra1) Dm"
    and ent: "\<forall>n < et_nodes Tetra1.
       Dm ! 0 ! (3 * n) = et_B Tetra1 [] ! 0 ! n \<and> Dm ! 0 ! (3 * n + 1) = 0 \<and> Dm ! 0 ! (3 * n + 2) = 0 \<and>
       Dm ! 1 ! (3 * n) = 0 \<and> Dm ! 1 ! (3 * n + 1) = et_B Tetra1 [] ! 1 ! n \<and> Dm ! 1 ! (3 * n + 2) = 0 \<and>
       Dm ! 2 ! (3 * n) = 0 \<and> Dm ! 2 ! (3 * n + 1) = 0 \<and> Dm ! 2 ! (3 * n + 2) = et_B Tetra1 [] ! 2 ! n \<and>
       Dm ! 3 ! (3 * n) = 0 \<and> Dm ! 3 ! (3 * n + 1) = et_B Tetra1 [] ! 2 ! n \<and>
         Dm ! 3 ! (3 * n + 2) = et_B Tetra1 [] ! 1 ! n \<and>
       Dm ! 4 ! (3 * n) = et_B Tetra1 [] ! 2 ! n \<and> Dm ! 4 ! (3 * n + 1) = 0 \<and>
         Dm ! 4 ! (3 * n + 2) = et_B Tetra1 [] ! 0 ! n \<and>
       Dm ! 5 ! (3 * n) = et_B Tetra1 [] ! 1 ! n \<and> Dm ! 5 ! (3 * n + 1) = et_B Tetra1 [] ! 0 ! n \<and>
         Dm ! 5 ! (3 * n + 2) = 0"
    by blast
  have n2: "(2::nat) < et_nodes Tetra1" and n0: "(0::nat) < et_nodes Tetra1"
    by (simp_all add: Tetra1_def)
  from ent n2 have "Dm ! 3 ! (3 * 2 + 1) = et_B Tetra1 [] ! 2 ! 2 \<and> Dm ! 3 ! (3 * 2 + 2) = et_B Tetra1 [] ! 1 ! 2"
    by blast
  then have a: "Dm ! 3 ! 7 = 0 \<and> Dm ! 3 ! 8 = 1" by (simp add: Tetra1_def)
  from ent n0 have "Dm ! 5 ! (3 * 0) = et_B Tetra1 [] ! 1 ! 0 \<and> Dm ! 5 ! (3 * 0 + 1) = et_B Tetra1 [] ! 0 ! 0 \<and>
         Dm ! 5 ! (3 * 0 + 2) = 0"
    by blast
  then have c: "Dm ! 5 ! 0 = -1 \<and> Dm ! 5 ! 1 = -1 \<and> Dm ! 5 ! 2 = 0"
    by (simp add: Tetra1_def numeral_2_eq_2)
  have "is_mat 6 12 Dm" using shape by (simp add: Tetra1_def)
  with e b Dm a c show ?thesis by blast
qed

section \<open>Volumes\<close>

lemma foldl_add_sum:
  "foldl (\<lambda>acc x. acc + g x) s xs = s + sum_list (map g xs)" for s :: real
  by (induction xs arbitrary: s) simp_all

lemma quadrature_sum:
  "foldl (\<lambda>volume (w, q). volume + w * linalg_det (matmul (et_B et q) nds)) 0 (quadrature et) =
   (\<Sum>(w, q)\<leftarrow>quadrature et. w * jacobian_det et nds q)"
proof -
  have "(\<lambda>volume (w, q). volume + w * linalg_det (matmul (et_B et q) nds)) =
        (\<lambda>volume x. volume + (case x of (w, q) \<Rightarrow> w * jacobian_det et nds q))"
    by (auto simp: fun_eq_iff jacobian_det_def)
  then show ?thesis by (simp add: foldl_add_sum)
qed

lemma take_rows_Inr:
  "list_all (\<lambda>i. i < length M) idx \<Longrightarrow> take_rows M idx = Inr (pick M idx)"
  by (simp add: take_rows_def pick_def)

lemma take_rows_error: "take_rows M idx = Inl e \<Longrightarrow> e = IndexError"
  by (simp add: take_rows_def split: if_splits)

lemma volumes_loop_no_geometry: "volumes_loop p j els volumes \<noteq> Inl GeometryError"
proof (induction els arbitrary: j volumes)
  case Nil
  show ?case by simp
next
  case (Cons element els)
  show ?case
    using Cons.IH
    by (auto simp: Let_def split: sum.splits option.splits dest: take_rows_error)
qed

lemma volumes_loop_Inr:
  assumes "etype p = Some et"
  shows "\<forall>e \<in> set els. list_all (\<lambda>i. i < length (nodes p)) e \<Longrightarrow>
         j + length els \<le> length volumes \<Longrightarrow>
         volumes_loop p j els volumes =
           Inr (take j volumes
                @ map (\<lambda>e. \<Sum>(w, q)\<leftarrow>quadrature et. w * jacobian_det et (pick (nodes p) e) q) els
                @ drop (j + length els) volumes)"
proof (induction els arbitrary: j volumes)
  case Nil
  then show ?case by simp
next
  case (Cons e els)
  let ?v = "\<Sum>(w, q)\<leftarrow>quadrature et. w * jacobian_det et (pick (nodes p) e) q"
  have j: "j < length volumes" using Cons.prems(2) by simp
  have tr: "take_rows (nodes p) e = Inr (pick (nodes p) e)"
    using Cons.prems(1) by (simp add: take_rows_Inr)
  have step: "volumes_loop p j (e # els) volumes = volumes_loop p (Suc j) els (volumes[j := ?v])"
    using j by (simp add: tr assms quadrature_sum Let_def)
  have "volumes_loop p (Suc j) els (volumes[j := ?v]) =
      Inr (take (Suc j) (volumes[j := ?v])
           @ map (\<lambda>e. \<Sum>(w, q)\<leftarrow>quadrature et. w * jacobian_det et (pick (nodes p) e) q) els
           @ drop (Suc j + length els) (volumes[j := ?v]))"
    using Cons.prems by (intro Cons.IH) simp_all
  moreover have "take (Suc j) (volumes[j := ?v]) = take j volumes @ [?v]"
    using j by (simp add: take_Suc_conv_app_nth)
  moreover have "drop (Suc j + length els) (volumes[j := ?v]) = drop (j + length (e # els)) volumes"
    by simp
  ultimately show ?case using step by simp
qed

lemma Solid_volumes_Inr:
  assumes "etype p = Some et" "n_elem p = length (elements p)"
    "list_all (list_all (\<lambda>i. i < length (nodes p))) (elements p)"
  shows "Solid_volumes p =
     Inr (map (\<lambda>j. \<Sum>(w, q)\<leftarrow>quadrature et. w * jacobian_det et (element_nodes p j) q)
            [0..<length (elements p)])"
proof -
  let ?vol = "\<lambda>nds. \<Sum>(w, q)\<leftarrow>quadrature et. w * jacobian_det et nds q"
  let ?z = "zeros_vec (n_elem p)"
  have lz: "length ?z = length (elements p)" by (simp add: zeros_vec_def assms(2))
  have "volumes_loop p 0 (elements p) ?z =
     Inr (take 0 ?z @ map (\<lambda>e. ?vol (pick (nodes p) e)) (elements p)
          @ drop (0 + length (elements p)) ?z)"
  proof (rule volumes_loop_Inr [OF assms(1)])
    show "\<forall>e\<in>set (elements p). list_all (\<lambda>i. i < length (nodes p)) e"
      using assms(3) by (simp add: list_all_iff)
    show "0 + length (elements p) \<le> length ?z" by (simp add: lz)
  qed
  moreover have "take 0 ?z = []" by simp
  moreover have "drop (0 + length (elements p)) ?z = []" by (simp add: lz)
  moreover have "map (\<lambda>e. ?vol (pick (nodes p) e)) (elements p)
     = map (\<lambda>j. ?vol (element_nodes p j)) [0..<length (elements p)]"
    by (rule nth_equalityI) (simp_all add: element_nodes_def)
  ultimately show ?thesis
    unfolding Solid_volumes_def by (simp only: append_Nil append_Nil2)
qed

lemma wf_solid_elements_in_range:
  "wf_solid p \<Longrightarrow> list_all (list_all (\<lambda>i. i < length (nodes p))) (elements p)"
  by (auto simp: wf_solid_def wf_element_def list_all_iff split: option.splits)

lemma volumes_loop_frame:
  "volumes_loop (p\<lparr>forces := fs, displacements := ds, constraints := cs, C := Cm, strains := ss\<rparr>)
     j els volumes = volumes_loop p j els volumes"
  by (induction els arbitrary: j volumes) (simp_all add: Let_def split: sum.splits option.splits)

lemma wf_ex_inverted: "wf_solid ex_inverted"
  by (simp add: wf_solid_def ex_inverted_def ex_solid_def wf_etype_def Tetra1_def is_mat_def wf_element_def
      ex_nodes_def ex_zero_def ex_free_def ex_C_def dof_indices_def upt_rec numeral_nat)

text \<open>
  Claim C8: for every element \<open>j\<close> the volume query returns the quadrature sum over the
  pairs (weight \<open>w\<close>, point \<open>q\<close>) of \<open>w * det (B(q) @ nodes of j)\<close>, and the result is
  the same whatever the constitutive tensor, the strains and the boundary data are.
\<close>

theorem Solid_volumes_quadrature:
  assumes "wf_solid p" and "etype p = Some et"
  shows "\<exists>vs. Solid_volumes p = Inr vs \<and> length vs = n_elem p \<and>
           (\<forall>j < n_elem p.
              vs ! j = (\<Sum>(w, q)\<leftarrow>quadrature et. w * jacobian_det et (element_nodes p j) q)) \<and>
           Solid_volumes
             (p\<lparr>forces := fs, displacements := ds, constraints := cs, C := Cm, strains := ss\<rparr>) =
           Inr vs"
proof -
  have n: "n_elem p = length (elements p)"
    using assms by (simp add: wf_solid_def)
  have v: "Solid_volumes p =
     Inr (map (\<lambda>j. \<Sum>(w, q)\<leftarrow>quadrature et. w * jacobian_det et (element_nodes p j) q)
            [0..<length (elements p)])"
    using assms(2) n wf_solid_elements_in_range [OF assms(1)] by (rule Solid_volumes_Inr)
  have "Solid_volumes
      (p\<lparr>forces := fs, displacements := ds, constraints := cs, C := Cm, strains := ss\<rparr>) =
      Solid_volumes p"
    using volumes_loop_frame [where p = p and j = 0 and els = "elements p"]
    by (simp add: Solid_volumes_def)
  with v n show ?thesis by simp
qed

theorem Solid_volumes_quadrature_witness:
  "wf_solid ex_solid \<and> etype ex_solid = Some Tetra1 \<and>
   (\<exists>vs. Solid_volumes ex_solid = Inr vs \<and> length vs = 1 \<and> vs ! 0 = 1 / 6 \<and>
      Solid_volumes (ex_solid\<lparr>forces := [], displacements := [], constraints := [],
         C := [[2]], strains := Some [[1, 1, 1, 0, 0, 0]]\<rparr>) = Inr vs)"
proof -
  have e: "etype ex_solid = Some Tetra1" by (simp add: ex_solid_def)
  from Solid_volumes_quadrature [OF wf_ex_solid e, where fs = "[]" and ds = "[]" and cs = "[]"
      and Cm = "[[2]]" and ss = "Some [[1, 1, 1, 0, 0, 0]]"]
  obtain vs where vs: "Solid_volumes ex_solid = Inr vs" "length vs = n_elem ex_solid"
    "\<forall>j < n_elem ex_solid.
        vs ! j = (\<Sum>(w, q)\<leftarrow>quadrature Tetra1. w * jacobian_det Tetra1 (element_nodes ex_solid j) q)"
    "Solid_volumes (ex_solid\<lparr>forces := [], displacements := [], constraints := [],
         C := [[2]], strains := Some [[1, 1, 1, 0, 0, 0]]\<rparr>) = Inr vs"
    by blast
  have n: "n_elem ex_solid = 1" by (simp add: ex_solid_def)
  have "vs ! 0 = (\<Sum>(w, q)\<leftarrow>quadrature Tetra1. w * jacobian_det Tetra1 (element_nodes ex_solid 0) q)"
    using vs(3) n by simp
  also have "\<dots> = 1 / 6" by code_simp
  finally have "vs ! 0 = 1 / 6" .
  with vs n e wf_ex_solid show ?thesis by auto
qed

text \<open>
  Claim C10: the volume query never raises the geometry error, on any problem; on a
  problem of the stated shapes it returns one value per element, whatever the sign of
  the Jacobian determinants. (The witness is an inverted element: its stiffness
  integration raises the geometry error, its volume is negative.)
\<close>

theorem Solid_volumes_never_geometry_error:
  "Solid_volumes p \<noteq> Inl GeometryError \<and>
   (wf_solid p \<longrightarrow> (\<exists>vs. Solid_volumes p = Inr vs \<and> length vs = n_elem p))"
proof
  show "Solid_volumes p \<noteq> Inl GeometryError"
    by (simp add: Solid_volumes_def volumes_loop_no_geometry)
  show "wf_solid p \<longrightarrow> (\<exists>vs. Solid_volumes p = Inr vs \<and> length vs = n_elem p)"
  proof
    assume wf: "wf_solid p"
    then obtain et where et: "etype p = Some et" and n: "n_elem p = length (elements p)"
      by (auto simp: wf_solid_def split: option.splits)
    from Solid_volumes_Inr [OF et n wf_solid_elements_in_range [OF wf]] n
    show "\<exists>vs. Solid_volumes p = Inr vs \<and> length vs = n_elem p" by simp
  qed
qed

theorem Solid_volumes_never_geometry_error_witness:
  "wf_solid ex_inverted \<and> nonpositive_jacobian ex_inverted Tetra1 0 \<and>
   Solid_k ex_inverted 0 = Inl GeometryError \<and>
   Solid_volumes ex_inverted \<noteq> Inl GeometryError \<and>
   (\<exists>vs. Solid_volumes ex_inverted = Inr vs \<and> length vs = n_elem ex_inverted) \<and>
   Solid_volumes ex_inverted = Inr [- (1 / 6)]"
proof -
  have a: "nonpositive_jacobian ex_inverted Tetra1 0" by code_simp
  have b: "Solid_k ex_inverted 0 = Inl GeometryError" by code_simp
  have c: "Solid_volumes ex_inverted = Inr [- (1 / 6)]" by code_simp
  from Solid_volumes_never_geometry_error [of ex_inverted] wf_ex_inverted a b c
  show ?thesis by blast
qed

section \<open>Matrices: shapes and entries\<close>

lemma is_matD:
  "is_mat n m M \<Longrightarrow> length M = n"
  "is_mat n m M \<Longrightarrow> i < n \<Longrightarrow> length (M ! i) = m"
  by (simp_all add: is_mat_def list_all_length)

lemma is_matI:
  "length M = n \<Longrightarrow> (\<And>i. i < n \<Longrightarrow> length (M ! i) = m) \<Longrightarrow> is_mat n m M"
  by (simp add: is_mat_def list_all_length)

lemma is_mat_ncols: "is_mat n m M \<Longrightarrow> 0 < n \<Longrightarrow> ncols M = m"
  by (cases M) (simp_all add: is_mat_def ncols_def)

lemma is_mat_zeros: "is_mat n m (zeros_mat n m)"
  by (simp add: is_mat_def zeros_mat_def list_all_length)

lemma nth_zeros_mat: "i < n \<Longrightarrow> j < m \<Longrightarrow> zeros_mat n m ! i ! j = 0"
  by (simp add: zeros_mat_def)

lemma dot_sum: "length u = length v \<Longrightarrow> dot u v = (\<Sum>t < length u. u ! t * v ! t)"
proof (induction u v rule: list_induct2)
  case Nil
  show ?case by simp
next
  case (Cons a u x v)
  have "(\<Sum>t < Suc (length u). (a # u) ! t * (x # v) ! t) = a * x + (\<Sum>t < length u. u ! t * v ! t)"
    by (subst sum.lessThan_Suc_shift) simp
  then show ?case using Cons by simp
qed

lemma length_col: "length (col M j) = length M"
  by (simp add: col_def)

lemma nth_col: "i < length M \<Longrightarrow> col M j ! i = M ! i ! j"
  by (simp add: col_def)

lemma is_mat_matmul: "is_mat n l A \<Longrightarrow> is_mat l m M \<Longrightarrow> 0 < l \<Longrightarrow> is_mat n m (matmul A M)"
  by (rule is_matI) (simp_all add: matmul_def is_mat_ncols is_matD)

lemma nth_matmul:
  assumes "is_mat n l A" "is_mat l m M" "0 < l" "i < n" "j < m"
  shows "matmul A M ! i ! j = (\<Sum>t < l. A ! i ! t * M ! t ! j)"
proof -
  have "matmul A M ! i ! j = dot (A ! i) (col M j)"
    using assms by (simp add: matmul_def is_mat_ncols is_matD)
  also have "\<dots> = (\<Sum>t < length (A ! i). A ! i ! t * col M j ! t)"
    using assms by (intro dot_sum) (simp add: length_col is_matD)
  also have "\<dots> = (\<Sum>t < l. A ! i ! t * M ! t ! j)"
    using assms by (simp add: is_matD nth_col)
  finally show ?thesis .
qed

lemma is_mat_mT: "is_mat n m M \<Longrightarrow> 0 < n \<Longrightarrow> is_mat m n (mT M)"
  by (rule is_matI) (simp_all add: mT_def is_mat_ncols length_col is_matD)

lemma nth_mT: "is_mat n m M \<Longrightarrow> 0 < n \<Longrightarrow> i < m \<Longrightarrow> j < n \<Longrightarrow> mT M ! i ! j = M ! j ! i"
  by (simp add: mT_def is_mat_ncols nth_col is_matD)

lemma is_mat_scal_mat: "is_mat n m M \<Longrightarrow> is_mat n m (scal_mat w M)"
  by (rule is_matI) (simp_all add: scal_mat_def is_matD)

lemma nth_scal_mat: "is_mat n m M \<Longrightarrow> i < n \<Longrightarrow> j < m \<Longrightarrow> scal_mat w M ! i ! j = w * M ! i ! j"
  by (simp add: scal_mat_def is_matD)

lemma is_mat_mat_scal: "is_mat n m M \<Longrightarrow> is_mat n m (mat_scal M s)"
  by (rule is_matI) (simp_all add: mat_scal_def is_matD)

lemma nth_mat_scal: "is_mat n m M \<Longrightarrow> i < n \<Longrightarrow> j < m \<Longrightarrow> mat_scal M s ! i ! j = M ! i ! j * s"
  by (simp add: mat_scal_def is_matD)

lemma is_mat_mat_add: "is_mat n m A \<Longrightarrow> is_mat n m M \<Longrightarrow> is_mat n m (mat_add A M)"
  by (rule is_matI) (simp_all add: mat_add_def vec_add_def is_matD)

lemma nth_mat_add:
  "is_mat n m A \<Longrightarrow> is_mat n m M \<Longrightarrow> i < n \<Longrightarrow> j < m \<Longrightarrow>
   mat_add A M ! i ! j = A ! i ! j + M ! i ! j"
  by (simp add: mat_add_def vec_add_def is_matD)

lemma is_mat_linalg_inv: "is_mat 3 3 (linalg_inv J)"
  by (simp add: linalg_inv_def Let_def is_mat_def)

section \<open>Element integration\<close>

lemma quadrature_point: "(w, q) \<in> set (quadrature et) \<Longrightarrow> q \<in> set (et_ipoints et)"
  by (auto simp: quadrature_def dest: set_zip_rightD)

lemma wf_etype_B:
  "wf_etype et \<Longrightarrow> (w, q) \<in> set (quadrature et) \<Longrightarrow> is_mat 3 (et_nodes et) (et_B et q)"
  by (auto simp: wf_etype_def list_all_iff dest: quadrature_point)

lemma Solid_J_eq:
  "etype p = Some et \<Longrightarrow>
   Solid_J p q nds =
     (if jacobian_det et nds q \<le> 0 then Inl GeometryError
      else Inr (matmul (et_B et q) nds, jacobian_det et nds q))"
  by (simp add: Solid_J_def jacobian_det_def Let_def)

lemma cartesian_gradient_shape:
  "is_mat 3 N (et_B et q) \<Longrightarrow> is_mat 3 N (matmul (linalg_inv J) (et_B et q))"
  by (rule is_mat_matmul [OF is_mat_linalg_inv]) simp_all

lemma symmetric_entries:
  "is_mat n n M \<Longrightarrow> 0 < n \<Longrightarrow> mT M = M \<Longrightarrow> i < n \<Longrightarrow> j < n \<Longrightarrow> M ! i ! j = M ! j ! i"
  using nth_mT [of n n M j i] by simp

lemma symmetric_mT:
  assumes "is_mat n n M" "\<And>i j. i < n \<Longrightarrow> j < n \<Longrightarrow> M ! i ! j = M ! j ! i"
  shows "mT M = M"
proof (cases "n = 0")
  case True
  then show ?thesis using assms(1) by (simp add: is_mat_def mT_def ncols_def)
next
  case False
  then have n: "0 < n" by simp
  show ?thesis
  proof (rule nth_equalityI)
    show "length (mT M) = length M"
      using is_mat_mT [OF assms(1) n] assms(1) by (simp add: is_matD)
    fix i assume "i < length (mT M)"
    then have i: "i < n" using is_mat_mT [OF assms(1) n] by (simp add: is_matD)
    show "mT M ! i = M ! i"
    proof (rule nth_equalityI)
      show "length (mT M ! i) = length (M ! i)"
        using is_mat_mT [OF assms(1) n] assms(1) i by (simp add: is_matD)
      fix j assume "j < length (mT M ! i)"
      then have j: "j < n" using is_mat_mT [OF assms(1) n] i by (simp add: is_matD)
      show "mT M ! i ! j = M ! i ! j"
        using nth_mT [OF assms(1) n i j] assms(2) [OF i j] by simp
    qed
  qed
qed

lemma integrand_shape:
  assumes "is_mat 6 m D" "is_mat 6 6 Cm" "0 < m"
  shows "is_mat m m (mat_scal (matmul (matmul (scal_mat w (mT D)) Cm) D) detJ)"
proof -
  have "is_mat m 6 (scal_mat w (mT D))"
    using assms by (intro is_mat_scal_mat is_mat_mT) simp_all
  then have "is_mat m 6 (matmul (scal_mat w (mT D)) Cm)"
    using assms(2) by (rule is_mat_matmul) simp
  then have "is_mat m m (matmul (matmul (scal_mat w (mT D)) Cm) D)"
    using assms(1) by (rule is_mat_matmul) simp
  then show ?thesis by (rule is_mat_mat_scal)
qed

lemma integrand_entry:
  assumes "is_mat 6 m D" "is_mat 6 6 Cm" "0 < m" "a < m" "b < m"
  shows "mat_scal (matmul (matmul (scal_mat w (mT D)) Cm) D) detJ ! a ! b =
         (\<Sum>l < 6. \<Sum>i < 6. w * D ! i ! a * Cm ! i ! l * D ! l ! b) * detJ"
proof -
  have s1: "is_mat m 6 (mT D)" using assms by (intro is_mat_mT) simp_all
  have s2: "is_mat m 6 (scal_mat w (mT D))" using s1 by (rule is_mat_scal_mat)
  have s3: "is_mat m 6 (matmul (scal_mat w (mT D)) Cm)"
    using s2 assms(2) by (rule is_mat_matmul) simp
  have s4: "is_mat m m (matmul (matmul (scal_mat w (mT D)) Cm) D)"
    using s3 assms(1) by (rule is_mat_matmul) simp
  have e1: "scal_mat w (mT D) ! a ! i = w * D ! i ! a" if "i < 6" for i
    using nth_scal_mat [OF s1 assms(4) that] nth_mT [OF assms(1) _ assms(4) that] by simp
  have e2: "matmul (scal_mat w (mT D)) Cm ! a ! l = (\<Sum>i < 6. w * D ! i ! a * Cm ! i ! l)"
    if "l < 6" for l
    using nth_matmul [OF s2 assms(2) _ assms(4) that] e1 by simp
  have "matmul (matmul (scal_mat w (mT D)) Cm) D ! a ! b =
        (\<Sum>l < 6. matmul (scal_mat w (mT D)) Cm ! a ! l * D ! l ! b)"
    using nth_matmul [OF s3 assms(1) _ assms(4) assms(5)] by simp
  also have "\<dots> = (\<Sum>l < 6. (\<Sum>i < 6. w * D ! i ! a * Cm ! i ! l) * D ! l ! b)"
    using e2 by simp
  also have "\<dots> = (\<Sum>l < 6. \<Sum>i < 6. w * D ! i ! a * Cm ! i ! l * D ! l ! b)"
    by (simp add: sum_distrib_right)
  finally show ?thesis using nth_mat_scal [OF s4 assms(4) assms(5)] by simp
qed

lemma integrand_symmetric:
  assumes "is_mat 6 m D" "is_mat 6 6 Cm" "0 < m" "a < m" "b < m" "mT Cm = Cm"
  shows "mat_scal (matmul (matmul (scal_mat w (mT D)) Cm) D) detJ ! a ! b =
         mat_scal (matmul (matmul (scal_mat w (mT D)) Cm) D) detJ ! b ! a"
proof -
  have c: "Cm ! i ! l = Cm ! l ! i" if "i < 6" "l < 6" for i l
    using symmetric_entries [OF assms(2) _ assms(6) that] by simp
  have "(\<Sum>l < 6. \<Sum>i < 6. w * D ! i ! a * Cm ! i ! l * D ! l ! b) =
        (\<Sum>i < 6. \<Sum>l < 6. w * D ! i ! a * Cm ! i ! l * D ! l ! b)"
    by (rule sum.swap)
  also have "\<dots> = (\<Sum>i < (6::nat). \<Sum>l < (6::nat). w * D ! l ! b * Cm ! l ! i * D ! i ! a)"
    by (intro sum.cong refl) (simp add: c)
  finally show ?thesis
    using integrand_entry [OF assms(1-3) assms(4) assms(5)]
      integrand_entry [OF assms(1-3) assms(5) assms(4)] by simp
qed

lemma k_loop_geometry:
  assumes "etype p = Some et" "wf_etype et"
  shows "set wqs \<subseteq> set (quadrature et) \<Longrightarrow>
         list_ex (\<lambda>(w, q). jacobian_det et nds q \<le> 0) wqs \<Longrightarrow>
         k_loop p nds wqs k = Inl GeometryError"
proof (induction wqs arbitrary: k)
  case Nil
  then show ?case by simp
next
  case (Cons wq wqs)
  obtain w q where wq: "wq = (w, q)" by (cases wq)
  have B: "is_mat 3 (et_nodes et) (et_B et q)"
    using Cons.prems(1) wq by (intro wf_etype_B [OF assms(2), of w]) simp
  show ?case
  proof (cases "jacobian_det et nds q \<le> 0")
    case True
    then show ?thesis by (simp add: wq Solid_J_eq [OF assms(1)])
  next
    case False
    obtain D where D: "Solid_D p (matmul (linalg_inv (matmul (et_B et q) nds)) (et_B et q)) = Inr D"
      using Solid_D_rows [OF assms(1) cartesian_gradient_shape [OF B]] by blast
    have "k_loop p nds wqs k' = Inl GeometryError" for k'
      using Cons.prems False by (intro Cons.IH) (simp_all add: wq)
    then show ?thesis
      using False by (simp add: wq Solid_J_eq [OF assms(1)] assms(1) D)
  qed
qed

lemma k_loop_ok:
  assumes "etype p = Some et" "wf_etype et" "is_mat 6 6 (C p)"
  shows "set wqs \<subseteq> set (quadrature et) \<Longrightarrow>
         \<not> list_ex (\<lambda>(w, q). jacobian_det et nds q \<le> 0) wqs \<Longrightarrow>
         is_mat (3 * et_nodes et) (3 * et_nodes et) k \<Longrightarrow>
         \<exists>k'. k_loop p nds wqs k = Inr k' \<and> is_mat (3 * et_nodes et) (3 * et_nodes et) k' \<and>
           (mT (C p) = C p \<longrightarrow>
            (\<forall>a < 3 * et_nodes et. \<forall>b < 3 * et_nodes et. k ! a ! b = k ! b ! a) \<longrightarrow>
            (\<forall>a < 3 * et_nodes et. \<forall>b < 3 * et_nodes et. k' ! a ! b = k' ! b ! a))"
proof (induction wqs arbitrary: k)
  case Nil
  then show ?case by simp
next
  case (Cons wq wqs)
  let ?m = "3 * et_nodes et"
  obtain w q where wq: "wq = (w, q)" by (cases wq)
  have B: "is_mat 3 (et_nodes et) (et_B et q)"
    using Cons.prems(1) wq by (intro wf_etype_B [OF assms(2), of w]) simp
  have m: "0 < ?m" using assms(2) by (simp add: wf_etype_def)
  have pos: "\<not> jacobian_det et nds q \<le> 0" using Cons.prems(2) wq by simp
  let ?J = "matmul (et_B et q) nds"
  let ?d = "jacobian_det et nds q"
  obtain D where D: "Solid_D p (matmul (linalg_inv ?J) (et_B et q)) = Inr D"
    and Ds: "is_mat 6 ?m D"
    using Solid_D_rows [OF assms(1) cartesian_gradient_shape [OF B]] by blast
  let ?X = "mat_scal (matmul (matmul (scal_mat w (mT D)) (C p)) D) ?d"
  have Xs: "is_mat ?m ?m ?X" using Ds assms(3) m by (rule integrand_shape)
  have ks: "is_mat ?m ?m (mat_add k ?X)" using Cons.prems(3) Xs by (rule is_mat_mat_add)
  have step: "k_loop p nds (wq # wqs) k = k_loop p nds wqs (mat_add k ?X)"
    using pos by (simp add: wq Solid_J_eq [OF assms(1)] assms(1) D)
  from Cons.IH [of "mat_add k ?X"] Cons.prems ks obtain k' where
    k': "k_loop p nds wqs (mat_add k ?X) = Inr k'" "is_mat ?m ?m k'"
      "mT (C p) = C p \<longrightarrow>
       (\<forall>a < ?m. \<forall>b < ?m. mat_add k ?X ! a ! b = mat_add k ?X ! b ! a) \<longrightarrow>
       (\<forall>a < ?m. \<forall>b < ?m. k' ! a ! b = k' ! b ! a)"
    by auto
  have "\<forall>a < ?m. \<forall>b < ?m. k' ! a ! b = k' ! b ! a"
    if c: "mT (C p) = C p" and s: "\<forall>a < ?m. \<forall>b < ?m. k ! a ! b = k ! b ! a"
  proof -
    have "mat_add k ?X ! a ! b = mat_add k ?X ! b ! a" if "a < ?m" "b < ?m" for a b
      using nth_mat_add [OF Cons.prems(3) Xs that] nth_mat_add [OF Cons.prems(3) Xs that(2,1)]
        integrand_symmetric [OF Ds assms(3) m that c] s that by simp
    then show ?thesis using k'(3) c by blast
  qed
  then show ?case using step k'(1,2) by auto
qed

lemma wf_solid_element:
  assumes "wf_solid p" "etype p = Some et" "j < length (elements p)"
  shows "wf_element p et (elements p ! j)"
  using assms by (auto simp: wf_solid_def list_all_length)

lemma wf_solid_etype: "wf_solid p \<Longrightarrow> etype p = Some et \<Longrightarrow> wf_etype et"
  by (simp add: wf_solid_def)

lemma wf_solid_C: "wf_solid p \<Longrightarrow> is_mat 6 6 (C p)"
  by (auto simp: wf_solid_def split: option.splits)

lemma Solid_k_unfold:
  assumes "wf_solid p" "etype p = Some et" "j < length (elements p)"
  shows "Solid_k p j =
    k_loop p (element_nodes p j) (quadrature et) (zeros_mat (3 * et_nodes et) (3 * et_nodes et))"
proof -
  have "take_rows (nodes p) (elements p ! j) = Inr (element_nodes p j)"
    using wf_solid_element [OF assms] by (simp add: wf_element_def take_rows_Inr element_nodes_def)
  then show ?thesis using assms(2,3) by (simp add: Solid_k_def)
qed

lemma Solid_k_geometry:
  assumes "wf_solid p" "etype p = Some et" "j < length (elements p)"
    "nonpositive_jacobian p et j"
  shows "Solid_k p j = Inl GeometryError"
  unfolding Solid_k_unfold [OF assms(1-3)]
  using assms(4)
  by (intro k_loop_geometry [OF assms(2) wf_solid_etype [OF assms(1,2)]])
     (simp_all add: nonpositive_jacobian_def)

lemma Solid_k_ok:
  assumes "wf_solid p" "etype p = Some et" "j < length (elements p)"
    "\<not> nonpositive_jacobian p et j"
  shows "\<exists>k. Solid_k p j = Inr k \<and> is_mat (3 * et_nodes et) (3 * et_nodes et) k \<and>
           (mT (C p) = C p \<longrightarrow> (\<forall>a < 3 * et_nodes et. \<forall>b < 3 * et_nodes et. k ! a ! b = k ! b ! a))"
proof -
  let ?m = "3 * et_nodes et"
  from k_loop_ok [OF assms(2) wf_solid_etype [OF assms(1,2)] wf_solid_C [OF assms(1)],
      of "quadrature et" "element_nodes p j" "zeros_mat ?m ?m"] assms(4)
  obtain k where k: "k_loop p (element_nodes p j) (quadrature et) (zeros_mat ?m ?m) = Inr k"
    "is_mat ?m ?m k"
    "mT (C p) = C p \<longrightarrow>
       (\<forall>a < ?m. \<forall>b < ?m. zeros_mat ?m ?m ! a ! b = zeros_mat ?m ?m ! b ! a) \<longrightarrow>
       (\<forall>a < ?m. \<forall>b < ?m. k ! a ! b = k ! b ! a)"
    by (auto simp: nonpositive_jacobian_def is_mat_zeros)
  have "\<forall>a < ?m. \<forall>b < ?m. zeros_mat ?m ?m ! a ! b = zeros_mat ?m ?m ! b ! a"
    by (simp add: nth_zeros_mat)
  with k show ?thesis unfolding Solid_k_unfold [OF assms(1-3)] by blast
qed

section \<open>Assembly\<close>

subsection \<open>Stores through index tensors\<close>

lemma is_mat_update: "is_mat n m K \<Longrightarrow> is_mat n m (K[r := (K ! r)[c := x]])"
proof (rule is_matI)
  show "length (K[r := (K ! r)[c := x]]) = n" if "is_mat n m K" using that by (simp add: is_matD)
  show "length (K[r := (K ! r)[c := x]] ! i) = m" if "is_mat n m K" "i < n" for i
    using that by (cases "i = r") (simp_all add: is_matD)
qed

lemma foldl_put2_shape:
  "is_mat n m K \<Longrightarrow> is_mat n m (foldl (\<lambda>K' ((r, c), x). K'[r := (K' ! r)[c := x]]) K ups)"
  by (induction ups arbitrary: K) (auto simp: is_mat_update)

lemma foldl_put2_other:
  "(r, c) \<notin> fst ` set ups \<Longrightarrow>
   foldl (\<lambda>K' ((r, c), x). K'[r := (K' ! r)[c := x]]) K ups ! r ! c = K ! r ! c"
proof (induction ups arbitrary: K)
  case Nil
  show ?case by simp
next
  case (Cons u ups)
  obtain r' c' x where u: "u = ((r', c'), x)" by (cases u) auto
  have ne: "(r, c) \<noteq> (r', c')" and rest: "(r, c) \<notin> fst ` set ups"
    using Cons.prems u by auto
  have "K[r' := (K ! r')[c' := x]] ! r ! c = K ! r ! c"
  proof (cases "r = r'")
    case True
    then have "c \<noteq> c'" using ne by simp
    then show ?thesis using True by (cases "r' < length K") (simp_all add: list_update_beyond)
  next
    case False
    then show ?thesis by simp
  qed
  then show ?case using Cons.IH [OF rest] by (simp add: u)
qed

lemma foldl_put2_hit:
  "is_mat n m K \<Longrightarrow> ((r, c), x) \<in> set ups \<Longrightarrow> \<forall>x'. ((r, c), x') \<in> set ups \<longrightarrow> x' = x \<Longrightarrow>
   r < n \<Longrightarrow> c < m \<Longrightarrow>
   foldl (\<lambda>K' ((r, c), x). K'[r := (K' ! r)[c := x]]) K ups ! r ! c = x"
proof (induction ups arbitrary: K)
  case Nil
  then show ?case by simp
next
  case (Cons u ups)
  obtain r' c' y where u: "u = ((r', c'), y)" by (cases u) auto
  let ?K = "K[r' := (K ! r')[c' := y]]"
  have shape: "is_mat n m ?K" using Cons.prems(1) by (rule is_mat_update)
  show ?case
  proof (cases "(r, c) \<in> fst ` set ups")
    case True
    then obtain x' where "((r, c), x') \<in> set ups" by force
    moreover from this have "x' = x" using Cons.prems(3) by simp
    ultimately have mem: "((r, c), x) \<in> set ups" by simp
    have uniq: "\<forall>x'. ((r, c), x') \<in> set ups \<longrightarrow> x' = x" using Cons.prems(3) by simp
    have "foldl (\<lambda>K' ((r, c), x). K'[r := (K' ! r)[c := x]]) ?K ups ! r ! c = x"
      using shape mem uniq Cons.prems(4) Cons.prems(5) by (rule Cons.IH)
    then show ?thesis by (simp add: u)
  next
    case False
    then have uu: "u = ((r, c), x)" using Cons.prems(2) by force
    have rc: "r' = r" "c' = c" "y = x" using uu u by simp_all
    have "length K = n" "length (K ! r) = m"
      using Cons.prems(1,4) by (simp_all add: is_matD)
    then have "?K ! r ! c = x"
      using Cons.prems(4,5) by (simp add: rc)
    then show ?thesis using foldl_put2_other [OF False, of ?K] by (simp add: u)
  qed
qed

subsection \<open>Global indices of an element\<close>

lemma length_dof_indices: "length (dof_indices e) = 3 * length e"
  by (induction e) (simp_all add: dof_indices_def)

lemma set_dof_indices: "i \<in> set (dof_indices e) \<longleftrightarrow> (\<exists>n \<in> set e. 3 * n \<le> i \<and> i < 3 * n + 3)"
  by (auto simp: dof_indices_def)

lemma distinct_dof_indices: "distinct e \<Longrightarrow> distinct (dof_indices e)"
proof (induction e)
  case Nil
  show ?case by (simp add: dof_indices_def)
next
  case (Cons n e)
  have "dof_indices (n # e) = map (\<lambda>i. 3 * n + i) [0..<3] @ dof_indices e"
    by (simp add: dof_indices_def)
  moreover have "distinct (map (\<lambda>i. 3 * n + i) [0..<3])"
    by (simp add: distinct_map inj_on_def)
  moreover have "set (map (\<lambda>i. 3 * n + i) [0..<3]) \<inter> set (dof_indices e) = {}"
  proof -
    have False if "i \<in> set (map (\<lambda>i. 3 * n + i) [0..<3])" "i \<in> set (dof_indices e)" for i
    proof -
      from that(2) obtain n' where n': "n' \<in> set e" "3 * n' \<le> i" "i < 3 * n' + 3"
        unfolding set_dof_indices by blast
      have "n \<noteq> n'" using Cons.prems n'(1) by auto
      moreover have "3 * n \<le> i" "i < 3 * n + 3" using that(1) by auto
      ultimately show False using n'(2,3) by arith
    qed
    then show ?thesis by blast
  qed
  ultimately show ?case using Cons by simp
qed

lemma dof_indices_bound:
  "list_all (\<lambda>i. i < N) e \<Longrightarrow> i \<in> set (dof_indices e) \<Longrightarrow> i < 3 * N"
proof -
  assume a: "list_all (\<lambda>i. i < N) e" "i \<in> set (dof_indices e)"
  from a(2) obtain n where n: "n \<in> set e" "i < 3 * n + 3"
    unfolding set_dof_indices by blast
  have "n < N" using a(1) n(1) by (simp add: list_all_iff)
  then show "i < 3 * N" using n(2) by arith
qed

lemma index2_meshgrid:
  assumes "is_mat n n K" "\<forall>i \<in> set idx. i < n" "0 < n"
  shows "index2 K (fst (meshgrid_xy idx idx)) (snd (meshgrid_xy idx idx)) =
         Inr (map (\<lambda>v. map (\<lambda>r. K ! r ! v) idx) idx)"
proof -
  have z: "zip (fst (meshgrid_xy idx idx)) (snd (meshgrid_xy idx idx)) =
           map (\<lambda>v. (idx, map (\<lambda>_. v) idx)) idx"
    by (simp add: meshgrid_xy_def zip_map_map zip_same_conv_map)
  have z2: "zip idx (map (\<lambda>_. v) idx) = map (\<lambda>r. (r, v)) idx" for v :: nat
    by (simp add: zip_map2 zip_same_conv_map)
  show ?thesis
    using assms by (simp add: index2_def z z2 list_all_iff is_mat_ncols is_matD o_def)
qed

lemma put2_meshgrid_updates:
  assumes "is_mat m m V" "length idx = m"
  shows "concat (map (\<lambda>((xs, ys), vs). zip (zip xs ys) vs)
           (zip (zip (fst (meshgrid_xy idx idx)) (snd (meshgrid_xy idx idx))) V)) =
         concat (map (\<lambda>a. map (\<lambda>b. ((idx ! b, idx ! a), V ! a ! b)) [0..<m]) [0..<m])"
proof -
  have z: "zip (fst (meshgrid_xy idx idx)) (snd (meshgrid_xy idx idx)) =
           map (\<lambda>v. (idx, map (\<lambda>_. v) idx)) idx"
    by (simp add: meshgrid_xy_def zip_map_map zip_same_conv_map)
  have rows: "map (\<lambda>((xs, ys), vs). zip (zip xs ys) vs)
           (zip (map (\<lambda>v. (idx, map (\<lambda>_. v) idx)) idx) V) =
         map (\<lambda>a. map (\<lambda>b. ((idx ! b, idx ! a), V ! a ! b)) [0..<m]) [0..<m]"
  proof (rule nth_equalityI)
    show "length (map (\<lambda>((xs, ys), vs). zip (zip xs ys) vs)
           (zip (map (\<lambda>v. (idx, map (\<lambda>_. v) idx)) idx) V)) =
          length (map (\<lambda>a. map (\<lambda>b. ((idx ! b, idx ! a), V ! a ! b)) [0..<m]) [0..<m])"
      using assms by (simp add: is_matD)
    fix a assume "a < length (map (\<lambda>((xs, ys), vs). zip (zip xs ys) vs)
           (zip (map (\<lambda>v. (idx, map (\<lambda>_. v) idx)) idx) V))"
    then have a: "a < m" using assms by (simp add: is_matD)
    have la: "length (V ! a) = m" using assms a by (simp add: is_matD)
    have "zip (zip idx (map (\<lambda>_. idx ! a) idx)) (V ! a) =
          map (\<lambda>b. ((idx ! b, idx ! a), V ! a ! b)) [0..<m]"
      by (rule nth_equalityI) (simp_all add: assms(2) la)
    then show "map (\<lambda>((xs, ys), vs). zip (zip xs ys) vs)
           (zip (map (\<lambda>v. (idx, map (\<lambda>_. v) idx)) idx) V) ! a =
          map (\<lambda>a. map (\<lambda>b. ((idx ! b, idx ! a), V ! a ! b)) [0..<m]) [0..<m] ! a"
      using a assms by (simp add: is_matD)
  qed
  show ?thesis unfolding z rows ..
qed

lemma set_grid:
  "u \<in> set (concat (map (\<lambda>a. map (\<lambda>b. g a b) [0..<m]) [0..<m])) \<longleftrightarrow>
   (\<exists>a < m. \<exists>b < m. u = g a b)"
proof
  assume "u \<in> set (concat (map (\<lambda>a. map (\<lambda>b. g a b) [0..<m]) [0..<m]))"
  then obtain row where row: "row \<in> set (map (\<lambda>a. map (\<lambda>b. g a b) [0..<m]) [0..<m])" "u \<in> set row"
    unfolding set_concat by blast
  from row(1) obtain a where a: "a < m" "row = map (\<lambda>b. g a b) [0..<m]" by auto
  from row(2) a(2) obtain b where "b < m" "u = g a b" by auto
  with a(1) show "\<exists>a < m. \<exists>b < m. u = g a b" by blast
next
  assume "\<exists>a < m. \<exists>b < m. u = g a b"
  then obtain a b where ab: "a < m" "b < m" "u = g a b" by blast
  have "map (\<lambda>b. g a b) [0..<m] \<in> set (map (\<lambda>a. map (\<lambda>b. g a b) [0..<m]) [0..<m])"
    using ab(1) by (auto intro!: image_eqI [where x = a])
  moreover have "u \<in> set (map (\<lambda>b. g a b) [0..<m])"
    using ab(2,3) by (auto intro!: image_eqI [where x = b])
  ultimately show "u \<in> set (concat (map (\<lambda>a. map (\<lambda>b. g a b) [0..<m]) [0..<m]))"
    unfolding set_concat by blast
qed

lemma assemble_entries:
  assumes K: "is_mat n n K" and k: "is_mat m m k" and d: "distinct idx"
    and b: "\<forall>i \<in> set idx. i < n" and l: "length idx = m"
  defines "K' \<equiv> index_put2 K (fst (meshgrid_xy idx idx)) (snd (meshgrid_xy idx idx))
                   (mat_add (map (\<lambda>v. map (\<lambda>r. K ! r ! v) idx) idx) k)"
  shows "is_mat n n K'"
    and "\<And>a b. a < m \<Longrightarrow> b < m \<Longrightarrow> K' ! (idx ! b) ! (idx ! a) = K ! (idx ! b) ! (idx ! a) + k ! a ! b"
    and "\<And>r c. r \<notin> set idx \<or> c \<notin> set idx \<Longrightarrow> K' ! r ! c = K ! r ! c"
proof -
  let ?Kg = "map (\<lambda>v. map (\<lambda>r. K ! r ! v) idx) idx"
  let ?V = "mat_add ?Kg k"
  let ?ups = "concat (map (\<lambda>a. map (\<lambda>b. ((idx ! b, idx ! a), ?V ! a ! b)) [0..<m]) [0..<m])"
  have Kg: "is_mat m m ?Kg" by (rule is_matI) (simp_all add: l)
  have V: "is_mat m m ?V" using Kg k by (rule is_mat_mat_add)
  have Vab: "?V ! a ! b = K ! (idx ! b) ! (idx ! a) + k ! a ! b" if "a < m" "b < m" for a b
    using nth_mat_add [OF Kg k that] that by (simp add: l)
  have K': "K' = foldl (\<lambda>K' ((r, c), x). K'[r := (K' ! r)[c := x]]) K ?ups"
    unfolding K'_def index_put2_def put2_meshgrid_updates [OF V l] ..
  show "is_mat n n K'" unfolding K' using K by (rule foldl_put2_shape)
  have ups: "u \<in> set ?ups \<longleftrightarrow> (\<exists>a < m. \<exists>b < m. u = ((idx ! b, idx ! a), ?V ! a ! b))" for u
    by (rule set_grid)
  show "K' ! (idx ! b) ! (idx ! a) = K ! (idx ! b) ! (idx ! a) + k ! a ! b"
    if ab: "a < m" "b < m" for a b
  proof -
    have mem: "((idx ! b, idx ! a), ?V ! a ! b) \<in> set ?ups"
      unfolding ups using ab by blast
    have uniq: "\<forall>x'. ((idx ! b, idx ! a), x') \<in> set ?ups \<longrightarrow> x' = ?V ! a ! b"
    proof (intro allI impI)
      fix x' assume "((idx ! b, idx ! a), x') \<in> set ?ups"
      then obtain a' b' where ab': "a' < m" "b' < m" "idx ! b = idx ! b'" "idx ! a = idx ! a'"
        "x' = ?V ! a' ! b'"
        unfolding ups by blast
      have "a' = a" "b' = b"
        using ab ab' d l by (simp_all add: nth_eq_iff_index_eq)
      then show "x' = ?V ! a ! b" using ab'(5) by simp
    qed
    have "idx ! b < n" "idx ! a < n" using b ab l by simp_all
    then have "K' ! (idx ! b) ! (idx ! a) = ?V ! a ! b"
      unfolding K' using K mem uniq by (intro foldl_put2_hit [where n = n and m = n])
    then show ?thesis using Vab [OF ab] by simp
  qed
  show "K' ! r ! c = K ! r ! c" if "r \<notin> set idx \<or> c \<notin> set idx" for r c
  proof -
    have "(r, c) \<notin> fst ` set ?ups"
    proof
      assume "(r, c) \<in> fst ` set ?ups"
      then obtain u where u: "u \<in> set ?ups" and f: "(r, c) = fst u" by (rule imageE)
      from u obtain a b where ab: "a < m" "b < m" "u = ((idx ! b, idx ! a), ?V ! a ! b)"
        unfolding ups by blast
      have "r = idx ! b" "c = idx ! a" using f ab(3) by simp_all
      then show False using that l ab(1,2) by auto
    qed
    then show ?thesis unfolding K' by (rule foldl_put2_other)
  qed
qed

lemma wf_solid_n_dofs: "wf_solid p \<Longrightarrow> n_dofs p = 3 * length (nodes p)"
  by (auto simp: wf_solid_def split: option.splits)

lemma wf_solid_global_indices:
  "wf_solid p \<Longrightarrow> j < length (elements p) \<Longrightarrow>
   length (global_indices p) = length (elements p) \<and>
   global_indices p ! j =
     meshgrid_xy (dof_indices (elements p ! j)) (dof_indices (elements p ! j))"
  by (auto simp: wf_solid_def split: option.splits)

lemma wf_solid_dofs:
  assumes "wf_solid p" "etype p = Some et" "j < length (elements p)"
  shows "distinct (dof_indices (elements p ! j))"
    and "\<forall>i \<in> set (dof_indices (elements p ! j)). i < n_dofs p"
    and "length (dof_indices (elements p ! j)) = 3 * et_nodes et"
    and "0 < n_dofs p"
proof -
  have e: "wf_element p et (elements p ! j)" using assms by (rule wf_solid_element)
  show "distinct (dof_indices (elements p ! j))"
    using e by (simp add: wf_element_def distinct_dof_indices)
  show b: "\<forall>i \<in> set (dof_indices (elements p ! j)). i < n_dofs p"
    using e dof_indices_bound [of "length (nodes p)" "elements p ! j"] wf_solid_n_dofs [OF assms(1)]
    by (simp add: wf_element_def)
  show l: "length (dof_indices (elements p ! j)) = 3 * et_nodes et"
    using e by (simp add: wf_element_def length_dof_indices)
  have "0 < et_nodes et" using wf_solid_etype [OF assms(1,2)] by (simp add: wf_etype_def)
  then have "dof_indices (elements p ! j) \<noteq> []" using l by auto
  then obtain i where "i \<in> set (dof_indices (elements p ! j))"
    by (cases "dof_indices (elements p ! j)") auto
  then show "0 < n_dofs p" using b by force
qed

lemma stiffness_step:
  assumes "wf_solid p" "etype p = Some et" "j < length (elements p)"
    "is_mat (n_dofs p) (n_dofs p) K"
  shows "stiffness_loop p (j # js) K =
     (case Solid_k p j of
        Inl e \<Rightarrow> Inl e
      | Inr k \<Rightarrow>
          stiffness_loop p js
            (index_put2 K
               (fst (meshgrid_xy (dof_indices (elements p ! j)) (dof_indices (elements p ! j))))
               (snd (meshgrid_xy (dof_indices (elements p ! j)) (dof_indices (elements p ! j))))
               (mat_add
                  (map (\<lambda>v. map (\<lambda>r. K ! r ! v) (dof_indices (elements p ! j)))
                     (dof_indices (elements p ! j))) k)))"
proof -
  let ?idx = "dof_indices (elements p ! j)"
  have g: "length (global_indices p) = length (elements p)"
    "global_indices p ! j = meshgrid_xy ?idx ?idx"
    using wf_solid_global_indices [OF assms(1,3)] by simp_all
  have i2: "index2 K (fst (meshgrid_xy ?idx ?idx)) (snd (meshgrid_xy ?idx ?idx)) =
            Inr (map (\<lambda>v. map (\<lambda>r. K ! r ! v) ?idx) ?idx)"
    using assms(4) wf_solid_dofs(2,4) [OF assms(1-3)] by (rule index2_meshgrid)
  show ?thesis
    using assms(3) g i2
    by (simp add: split_beta)
qed

lemma assemble_symmetric:
  assumes K: "is_mat n n K" and k: "is_mat m m k" and d: "distinct idx"
    and b: "\<forall>i \<in> set idx. i < n" and l: "length idx = m"
    and sK: "\<forall>r < n. \<forall>c < n. K ! r ! c = K ! c ! r"
    and sk: "\<forall>a < m. \<forall>b < m. k ! a ! b = k ! b ! a"
    and rc: "r < n" "c < n"
  shows "index_put2 K (fst (meshgrid_xy idx idx)) (snd (meshgrid_xy idx idx))
           (mat_add (map (\<lambda>v. map (\<lambda>r. K ! r ! v) idx) idx) k) ! r ! c =
         index_put2 K (fst (meshgrid_xy idx idx)) (snd (meshgrid_xy idx idx))
           (mat_add (map (\<lambda>v. map (\<lambda>r. K ! r ! v) idx) idx) k) ! c ! r"
proof (cases "r \<in> set idx \<and> c \<in> set idx")
  case True
  then obtain a' b' where ab: "b' < m" "idx ! b' = r" "a' < m" "idx ! a' = c"
    using l by (auto simp: in_set_conv_nth)
  show ?thesis
    using assemble_entries(2) [OF K k d b l ab(3) ab(1)] assemble_entries(2) [OF K k d b l ab(1) ab(3)]
      sK sk rc ab by simp
next
  case False
  then show ?thesis
    using assemble_entries(3) [OF K k d b l, of r c] assemble_entries(3) [OF K k d b l, of c r]
      sK rc by auto
qed

lemma stiffness_loop_geometry:
  assumes "wf_solid p" "etype p = Some et"
  shows "\<forall>j \<in> set js. j < length (elements p) \<Longrightarrow>
         \<exists>j \<in> set js. nonpositive_jacobian p et j \<Longrightarrow>
         is_mat (n_dofs p) (n_dofs p) K \<Longrightarrow>
         stiffness_loop p js K = Inl GeometryError"
proof (induction js arbitrary: K)
  case Nil
  then show ?case by simp
next
  case (Cons j js)
  have j: "j < length (elements p)" using Cons.prems(1) by simp
  note step = stiffness_step [OF assms j Cons.prems(3), of js]
  show ?case
  proof (cases "nonpositive_jacobian p et j")
    case True
    then show ?thesis using step Solid_k_geometry [OF assms j] by simp
  next
    case False
    from Solid_k_ok [OF assms j False] obtain k where
      k: "Solid_k p j = Inr k" "is_mat (3 * et_nodes et) (3 * et_nodes et) k" by blast
    let ?idx = "dof_indices (elements p ! j)"
    let ?K = "index_put2 K (fst (meshgrid_xy ?idx ?idx)) (snd (meshgrid_xy ?idx ?idx))
                (mat_add (map (\<lambda>v. map (\<lambda>r. K ! r ! v) ?idx) ?idx) k)"
    have shape: "is_mat (n_dofs p) (n_dofs p) ?K"
      using Cons.prems(3) k(2) wf_solid_dofs(1-3) [OF assms j] by (rule assemble_entries(1))
    have "stiffness_loop p js ?K = Inl GeometryError"
      using Cons.prems(1,2) False shape by (intro Cons.IH) auto
    then show ?thesis using step k(1) by simp
  qed
qed

lemma stiffness_loop_ok:
  assumes "wf_solid p" "etype p = Some et"
  shows "\<forall>j \<in> set js. j < length (elements p) \<and> \<not> nonpositive_jacobian p et j \<Longrightarrow>
         is_mat (n_dofs p) (n_dofs p) K \<Longrightarrow>
         \<exists>K'. stiffness_loop p js K = Inr K' \<and> is_mat (n_dofs p) (n_dofs p) K' \<and>
           (mT (C p) = C p \<longrightarrow>
            (\<forall>r < n_dofs p. \<forall>c < n_dofs p. K ! r ! c = K ! c ! r) \<longrightarrow>
            (\<forall>r < n_dofs p. \<forall>c < n_dofs p. K' ! r ! c = K' ! c ! r))"
proof (induction js arbitrary: K)
  case Nil
  then show ?case by simp
next
  case (Cons j js)
  have j: "j < length (elements p)" and pos: "\<not> nonpositive_jacobian p et j"
    using Cons.prems(1) by simp_all
  note step = stiffness_step [OF assms j Cons.prems(2), of js]
  from Solid_k_ok [OF assms j pos] obtain k where
    k: "Solid_k p j = Inr k" "is_mat (3 * et_nodes et) (3 * et_nodes et) k"
      "mT (C p) = C p \<longrightarrow> (\<forall>a < 3 * et_nodes et. \<forall>b < 3 * et_nodes et. k ! a ! b = k ! b ! a)"
    by blast
  let ?idx = "dof_indices (elements p ! j)"
  let ?K = "index_put2 K (fst (meshgrid_xy ?idx ?idx)) (snd (meshgrid_xy ?idx ?idx))
              (mat_add (map (\<lambda>v. map (\<lambda>r. K ! r ! v) ?idx) ?idx) k)"
  note dofs = wf_solid_dofs(1-3) [OF assms j]
  have shape: "is_mat (n_dofs p) (n_dofs p) ?K"
    using Cons.prems(2) k(2) dofs by (rule assemble_entries(1))
  from Cons.IH [of ?K] Cons.prems(1) shape obtain K' where
    K': "stiffness_loop p js ?K = Inr K'" "is_mat (n_dofs p) (n_dofs p) K'"
      "mT (C p) = C p \<longrightarrow>
       (\<forall>r < n_dofs p. \<forall>c < n_dofs p. ?K ! r ! c = ?K ! c ! r) \<longrightarrow>
       (\<forall>r < n_dofs p. \<forall>c < n_dofs p. K' ! r ! c = K' ! c ! r)"
    by auto
  have "\<forall>r < n_dofs p. \<forall>c < n_dofs p. K' ! r ! c = K' ! c ! r"
    if c: "mT (C p) = C p" and s: "\<forall>r < n_dofs p. \<forall>c < n_dofs p. K ! r ! c = K ! c ! r"
  proof -
    have sk: "\<forall>a < 3 * et_nodes et. \<forall>b < 3 * et_nodes et. k ! a ! b = k ! b ! a"
      using k(3) c by simp
    have "?K ! r ! c = ?K ! c ! r" if "r < n_dofs p" "c < n_dofs p" for r c
      using Cons.prems(2) k(2) dofs s sk that by (rule assemble_symmetric)
    then show ?thesis using K'(3) c by blast
  qed
  then show ?case using step k(1) K'(1,2) by auto
qed

lemma Solid_stiffness_geometry:
  assumes "wf_solid p" "etype p = Some et" "j < length (elements p)" "nonpositive_jacobian p et j"
  shows "Solid_stiffness p = Inl GeometryError"
  unfolding Solid_stiffness_def
  using assms(3,4) by (intro stiffness_loop_geometry [OF assms(1,2)]) (auto simp: is_mat_zeros)

lemma Solid_stiffness_ok:
  assumes "wf_solid p" "etype p = Some et"
    "\<forall>j < length (elements p). \<not> nonpositive_jacobian p et j"
  shows "\<exists>K. Solid_stiffness p = Inr K \<and> is_mat (n_dofs p) (n_dofs p) K \<and>
           (mT (C p) = C p \<longrightarrow> (\<forall>r < n_dofs p. \<forall>c < n_dofs p. K ! r ! c = K ! c ! r))"
proof -
  let ?Z = "zeros_mat (n_dofs p) (n_dofs p)"
  from stiffness_loop_ok [OF assms(1,2), of "[0..<length (elements p)]" ?Z] assms(3)
  obtain K where K: "stiffness_loop p [0..<length (elements p)] ?Z = Inr K"
    "is_mat (n_dofs p) (n_dofs p) K"
    "mT (C p) = C p \<longrightarrow>
       (\<forall>r < n_dofs p. \<forall>c < n_dofs p. ?Z ! r ! c = ?Z ! c ! r) \<longrightarrow>
       (\<forall>r < n_dofs p. \<forall>c < n_dofs p. K ! r ! c = K ! c ! r)"
    by (auto simp: is_mat_zeros)
  have "\<forall>r < n_dofs p. \<forall>c < n_dofs p. ?Z ! r ! c = ?Z ! c ! r"
    by (simp add: nth_zeros_mat)
  with K show ?thesis unfolding Solid_stiffness_def by blast
qed

lemma Solid_stiffness_shape:
  assumes "wf_solid p" "Solid_stiffness p = Inr K"
  shows "is_mat (n_dofs p) (n_dofs p) K"
proof -
  from assms(1) obtain et where et: "etype p = Some et"
    by (auto simp: wf_solid_def split: option.splits)
  show ?thesis
  proof (cases "\<exists>j < length (elements p). nonpositive_jacobian p et j")
    case True
    then show ?thesis using Solid_stiffness_geometry [OF assms(1) et] assms(2) by auto
  next
    case False
    then show ?thesis using Solid_stiffness_ok [OF assms(1) et] assms(2) by auto
  qed
qed

section \<open>Inelastic forces\<close>

lemma dot_zero_right: "list_all (\<lambda>x. x = 0) v \<Longrightarrow> dot u v = 0"
proof (induction u arbitrary: v)
  case Nil
  show ?case by simp
next
  case (Cons a u)
  then show ?case by (cases v) simp_all
qed

lemma length_matvec: "length (matvec A v) = length A"
  by (simp add: matvec_def)

lemma vec_add_zero:
  assumes "length z = length f" "list_all (\<lambda>x. x = 0) z"
  shows "vec_add f z = f"
  using assms by (intro nth_equalityI) (simp_all add: vec_add_def list_all_length)

lemma force_integrand:
  assumes "is_mat 6 m D" "is_mat 6 6 Cm" "0 < m" "length f = m"
  shows "length (vec_add f (vec_scal (matvec (matmul (scal_mat w (mT D)) Cm) eps) detJ)) = m"
    and "list_all (\<lambda>x. x = 0) eps \<Longrightarrow>
         vec_add f (vec_scal (matvec (matmul (scal_mat w (mT D)) Cm) eps) detJ) = f"
proof -
  let ?A = "matmul (scal_mat w (mT D)) Cm"
  have "is_mat m 6 (scal_mat w (mT D))"
    using assms by (intro is_mat_scal_mat is_mat_mT) simp_all
  then have "is_mat m 6 ?A" using assms(2) by (rule is_mat_matmul) simp
  then have lA: "length ?A = m" by (simp add: is_matD)
  then have lz: "length (vec_scal (matvec ?A eps) detJ) = m"
    by (simp add: vec_scal_def length_matvec)
  show "length (vec_add f (vec_scal (matvec ?A eps) detJ)) = m"
    using lz assms(4) by (simp add: vec_add_def)
  show "vec_add f (vec_scal (matvec ?A eps) detJ) = f" if z: "list_all (\<lambda>x. x = 0) eps"
  proof (rule vec_add_zero)
    show "length (vec_scal (matvec ?A eps) detJ) = length f" using lz assms(4) by simp
    show "list_all (\<lambda>x. x = 0) (vec_scal (matvec ?A eps) detJ)"
      using z by (simp add: vec_scal_def matvec_def list_all_iff dot_zero_right)
  qed
qed

lemma f_loop_geometry:
  assumes "etype p = Some et" "wf_etype et"
  shows "set wqs \<subseteq> set (quadrature et) \<Longrightarrow>
         list_ex (\<lambda>(w, q). jacobian_det et nds q \<le> 0) wqs \<Longrightarrow>
         f_loop p nds eps wqs f = Inl GeometryError"
proof (induction wqs arbitrary: f)
  case Nil
  then show ?case by simp
next
  case (Cons wq wqs)
  obtain w q where wq: "wq = (w, q)" by (cases wq)
  have B: "is_mat 3 (et_nodes et) (et_B et q)"
    using Cons.prems(1) wq by (intro wf_etype_B [OF assms(2), of w]) simp
  show ?case
  proof (cases "jacobian_det et nds q \<le> 0")
    case True
    then show ?thesis by (simp add: wq Solid_J_eq [OF assms(1)])
  next
    case False
    obtain D where D: "Solid_D p (matmul (linalg_inv (matmul (et_B et q) nds)) (et_B et q)) = Inr D"
      using Solid_D_rows [OF assms(1) cartesian_gradient_shape [OF B]] by blast
    have "f_loop p nds eps wqs f' = Inl GeometryError" for f'
      using Cons.prems False by (intro Cons.IH) (simp_all add: wq)
    then show ?thesis
      using False by (simp add: wq Solid_J_eq [OF assms(1)] assms(1) D)
  qed
qed

lemma f_loop_ok:
  assumes "etype p = Some et" "wf_etype et" "is_mat 6 6 (C p)"
  shows "set wqs \<subseteq> set (quadrature et) \<Longrightarrow>
         \<not> list_ex (\<lambda>(w, q). jacobian_det et nds q \<le> 0) wqs \<Longrightarrow>
         length f = 3 * et_nodes et \<Longrightarrow>
         \<exists>f'. f_loop p nds eps wqs f = Inr f' \<and> length f' = 3 * et_nodes et \<and>
           (list_all (\<lambda>x. x = 0) eps \<longrightarrow> f' = f)"
proof (induction wqs arbitrary: f)
  case Nil
  then show ?case by simp
next
  case (Cons wq wqs)
  let ?m = "3 * et_nodes et"
  obtain w q where wq: "wq = (w, q)" by (cases wq)
  have B: "is_mat 3 (et_nodes et) (et_B et q)"
    using Cons.prems(1) wq by (intro wf_etype_B [OF assms(2), of w]) simp
  have m: "0 < ?m" using assms(2) by (simp add: wf_etype_def)
  have pos: "\<not> jacobian_det et nds q \<le> 0" using Cons.prems(2) wq by simp
  let ?J = "matmul (et_B et q) nds"
  let ?d = "jacobian_det et nds q"
  obtain D where D: "Solid_D p (matmul (linalg_inv ?J) (et_B et q)) = Inr D"
    and Ds: "is_mat 6 ?m D"
    using Solid_D_rows [OF assms(1) cartesian_gradient_shape [OF B]] by blast
  let ?f = "vec_add f (vec_scal (matvec (matmul (scal_mat w (mT D)) (C p)) eps) ?d)"
  note fi = force_integrand [OF Ds assms(3) m Cons.prems(3), where w = w and eps = eps and detJ = ?d]
  have step: "f_loop p nds eps (wq # wqs) f = f_loop p nds eps wqs ?f"
    using pos by (simp add: wq Solid_J_eq [OF assms(1)] assms(1) D)
  from Cons.IH [of ?f] Cons.prems fi(1) obtain f' where
    f': "f_loop p nds eps wqs ?f = Inr f'" "length f' = ?m"
      "list_all (\<lambda>x. x = 0) eps \<longrightarrow> f' = ?f"
    by auto
  show ?case using step f' fi(2) by auto
qed

lemma Solid_f_unfold:
  assumes "wf_solid p" "etype p = Some et" "j < length (elements p)"
  shows "Solid_f p j eps =
    f_loop p (element_nodes p j) eps (quadrature et) (zeros_vec (3 * et_nodes et))"
proof -
  have "take_rows (nodes p) (elements p ! j) = Inr (element_nodes p j)"
    using wf_solid_element [OF assms] by (simp add: wf_element_def take_rows_Inr element_nodes_def)
  then show ?thesis using assms(2,3) by (simp add: Solid_f_def)
qed

lemma Solid_f_geometry:
  assumes "wf_solid p" "etype p = Some et" "j < length (elements p)"
    "nonpositive_jacobian p et j"
  shows "Solid_f p j eps = Inl GeometryError"
  unfolding Solid_f_unfold [OF assms(1-3)]
  using assms(4)
  by (intro f_loop_geometry [OF assms(2) wf_solid_etype [OF assms(1,2)]])
     (simp_all add: nonpositive_jacobian_def)

lemma Solid_f_ok:
  assumes "wf_solid p" "etype p = Some et" "j < length (elements p)"
    "\<not> nonpositive_jacobian p et j"
  shows "\<exists>f. Solid_f p j eps = Inr f \<and> length f = 3 * et_nodes et \<and>
           (list_all (\<lambda>x. x = 0) eps \<longrightarrow> f = zeros_vec (3 * et_nodes et))"
  unfolding Solid_f_unfold [OF assms(1-3)]
  using assms(4)
  by (intro f_loop_ok [OF assms(2) wf_solid_etype [OF assms(1,2)] wf_solid_C [OF assms(1)]])
     (simp_all add: nonpositive_jacobian_def zeros_vec_def)

lemma foldl_put1_length: "length (foldl (\<lambda>v' (i, x). v'[i := x]) v ups) = length v"
  by (induction ups arbitrary: v) (simp_all add: split_beta)

lemma length_index_put1: "length (index_put1 v X V) = length v"
  by (simp add: index_put1_def foldl_put1_length)

lemma foldl_put1_id:
  "\<forall>u \<in> set ups. snd u = v ! fst u \<Longrightarrow> foldl (\<lambda>v' (i, x). v'[i := x]) v ups = v"
  by (induction ups arbitrary: v) (simp_all add: split_beta)

lemma inelastic_loop_length:
  "inelastic_loop p jes F = Inr F' \<Longrightarrow> length F' = length F"
proof (induction jes arbitrary: F)
  case Nil
  then show ?case by simp
next
  case (Cons je jes)
  obtain j eps where je: "je = (j, eps)" by (cases je)
  from Cons.prems obtain Fg fj where
    "inelastic_loop p jes
       (index_put1 F (fst (global_indices p ! j)) (map (\<lambda>row. vec_add row fj) Fg)) = Inr F'"
    by (auto simp: je split: if_splits sum.splits)
  from Cons.IH [OF this] show ?case by (simp add: length_index_put1)
qed

lemma inelastic_forces_length:
  "inelastic_forces p = Inr F \<Longrightarrow> length F = n_dofs p"
  by (auto simp: inelastic_forces_def zeros_vec_def split: option.splits
      dest: inelastic_loop_length)

lemma index1_meshgrid:
  "\<forall>i \<in> set idx. i < length F \<Longrightarrow>
   index1 F (fst (meshgrid_xy idx idx)) = Inr (map (\<lambda>_. map (\<lambda>i. F ! i) idx) idx)"
  by (simp add: index1_def meshgrid_xy_def list_all_iff)

lemma put1_meshgrid_zero:
  assumes "length fj = length idx" "list_all (\<lambda>x. x = 0) fj"
  shows "index_put1 F (fst (meshgrid_xy idx idx))
           (map (\<lambda>row. vec_add row fj) (map (\<lambda>_. map (\<lambda>i. F ! i) idx) idx)) = F"
proof -
  have row: "vec_add (map (\<lambda>i. F ! i) idx) fj = map (\<lambda>i. F ! i) idx"
    using assms by (intro vec_add_zero) simp_all
  have "\<forall>u \<in> set (concat (map (\<lambda>(xs, vs). zip xs vs)
           (zip (map (\<lambda>_. idx) idx) (map (\<lambda>_. map (\<lambda>i. F ! i) idx) idx)))). snd u = F ! fst u"
    by (auto simp: set_zip)
  then show ?thesis
    by (simp add: index_put1_def meshgrid_xy_def row o_def foldl_put1_id)
qed

lemma inelastic_step:
  assumes "wf_solid p" "etype p = Some et" "j < length (elements p)" "length F = n_dofs p"
  shows "inelastic_loop p ((j, eps) # rest) F =
     (case Solid_f p j eps of
        Inl e \<Rightarrow> Inl e
      | Inr fj \<Rightarrow>
          inelastic_loop p rest
            (index_put1 F
               (fst (meshgrid_xy (dof_indices (elements p ! j)) (dof_indices (elements p ! j))))
               (map (\<lambda>row. vec_add row fj)
                  (map (\<lambda>_. map (\<lambda>i. F ! i) (dof_indices (elements p ! j)))
                     (dof_indices (elements p ! j))))))"
proof -
  let ?idx = "dof_indices (elements p ! j)"
  have g: "length (global_indices p) = length (elements p)"
    "global_indices p ! j = meshgrid_xy ?idx ?idx"
    using wf_solid_global_indices [OF assms(1,3)] by simp_all
  have "index1 F (fst (meshgrid_xy ?idx ?idx)) = Inr (map (\<lambda>_. map (\<lambda>i. F ! i) ?idx) ?idx)"
    using wf_solid_dofs(2) [OF assms(1-3)] assms(4) by (intro index1_meshgrid) simp
  then show ?thesis using assms(3) g by (simp cong: sum.case_cong)
qed

lemma inelastic_loop_geometry:
  assumes "wf_solid p" "etype p = Some et"
  shows "\<forall>je \<in> set jes. fst je < length (elements p) \<Longrightarrow>
         \<exists>je \<in> set jes. nonpositive_jacobian p et (fst je) \<Longrightarrow>
         length F = n_dofs p \<Longrightarrow>
         inelastic_loop p jes F = Inl GeometryError"
proof (induction jes arbitrary: F)
  case Nil
  then show ?case by simp
next
  case (Cons je jes)
  obtain j eps where je: "je = (j, eps)" by (cases je)
  have j: "j < length (elements p)" using Cons.prems(1) je by simp
  note step = inelastic_step [OF assms j Cons.prems(3), of eps jes]
  show ?case
  proof (cases "nonpositive_jacobian p et j")
    case True
    then show ?thesis using step Solid_f_geometry [OF assms j] by (simp add: je)
  next
    case False
    from Solid_f_ok [OF assms j False, of eps] obtain fj where fj: "Solid_f p j eps = Inr fj"
      by blast
    have "inelastic_loop p jes F' = Inl GeometryError" if "length F' = n_dofs p" for F'
      using Cons.prems(1,2) False that by (intro Cons.IH) (auto simp: je)
    then show ?thesis
      using step fj Cons.prems(3) by (simp add: je length_index_put1)
  qed
qed

lemma inelastic_loop_ok:
  assumes "wf_solid p" "etype p = Some et"
  shows "\<forall>je \<in> set jes. fst je < length (elements p) \<and> \<not> nonpositive_jacobian p et (fst je) \<Longrightarrow>
         length F = n_dofs p \<Longrightarrow>
         \<exists>F'. inelastic_loop p jes F = Inr F' \<and> length F' = n_dofs p \<and>
           ((\<forall>je \<in> set jes. list_all (\<lambda>x. x = 0) (snd je)) \<longrightarrow> F' = F)"
proof (induction jes arbitrary: F)
  case Nil
  then show ?case by simp
next
  case (Cons je jes)
  obtain j eps where je: "je = (j, eps)" by (cases je)
  have j: "j < length (elements p)" and pos: "\<not> nonpositive_jacobian p et j"
    using Cons.prems(1) je by simp_all
  note step = inelastic_step [OF assms j Cons.prems(2), of eps jes]
  from Solid_f_ok [OF assms j pos, of eps] obtain fj where
    fj: "Solid_f p j eps = Inr fj" "length fj = 3 * et_nodes et"
      "list_all (\<lambda>x. x = 0) eps \<longrightarrow> fj = zeros_vec (3 * et_nodes et)"
    by blast
  let ?idx = "dof_indices (elements p ! j)"
  let ?F = "index_put1 F (fst (meshgrid_xy ?idx ?idx))
              (map (\<lambda>row. vec_add row fj) (map (\<lambda>_. map (\<lambda>i. F ! i) ?idx) ?idx))"
  have lF: "length ?F = n_dofs p" using Cons.prems(2) by (simp add: length_index_put1)
  from Cons.IH [of ?F] Cons.prems(1) lF obtain F' where
    F': "inelastic_loop p jes ?F = Inr F'" "length F' = n_dofs p"
      "(\<forall>je \<in> set jes. list_all (\<lambda>x. x = 0) (snd je)) \<longrightarrow> F' = ?F"
    by auto
  have "F' = F" if z: "\<forall>je \<in> set (je # jes). list_all (\<lambda>x. x = 0) (snd je)"
  proof -
    have "list_all (\<lambda>x. x = 0) fj" using z fj(3) je by (simp add: zeros_vec_def list_all_length)
    moreover have "length fj = length ?idx" using fj(2) wf_solid_dofs(3) [OF assms j] by simp
    ultimately have "?F = F" by (intro put1_meshgrid_zero)
    then show ?thesis using F'(3) z by simp
  qed
  then show ?case using step fj(1) F'(1,2) by (auto simp: je)
qed

section \<open>The Jacobian guard and the symmetry of the stiffness\<close>

lemma positive_jacobians_iff:
  "positive_jacobians p et \<longleftrightarrow> (\<forall>j < length (elements p). \<not> nonpositive_jacobian p et j)"
  by (auto simp: positive_jacobians_def list_all_iff)

lemma inelastic_forces_geometry_free:
  assumes "wf_solid p" "etype p = Some et" "positive_jacobians p et"
  shows "\<exists>F. inelastic_forces p = Inr F \<and> length F = n_dofs p \<and>
           ((case strains p of None \<Rightarrow> True | Some ss \<Rightarrow> list_all (list_all (\<lambda>x. x = 0)) ss) \<longrightarrow>
            F = zeros_vec (n_dofs p))"
proof (cases "strains p")
  case None
  then show ?thesis by (simp add: inelastic_forces_def zeros_vec_def)
next
  case (Some ss)
  have len: "length ss \<le> length (elements p)"
    using assms(1,2) Some by (simp add: wf_solid_def)
  have "\<forall>je \<in> set (zip [0..<length ss] ss).
          fst je < length (elements p) \<and> \<not> nonpositive_jacobian p et (fst je)"
  proof
    fix je assume je: "je \<in> set (zip [0..<length ss] ss)"
    have "(fst je, snd je) \<in> set (zip [0..<length ss] ss)" using je by simp
    then have "fst je \<in> set [0..<length ss]" by (rule set_zip_leftD)
    then have "fst je < length (elements p)" using len by simp
    then show "fst je < length (elements p) \<and> \<not> nonpositive_jacobian p et (fst je)"
      using assms(3) by (simp add: positive_jacobians_iff)
  qed
  from inelastic_loop_ok [OF assms(1,2) this, of "zeros_vec (n_dofs p)"]
  obtain F where F: "inelastic_loop p (zip [0..<length ss] ss) (zeros_vec (n_dofs p)) = Inr F"
    "length F = n_dofs p"
    "(\<forall>je \<in> set (zip [0..<length ss] ss). list_all (\<lambda>x. x = 0) (snd je)) \<longrightarrow>
     F = zeros_vec (n_dofs p)"
    by (auto simp: zeros_vec_def)
  have "F = zeros_vec (n_dofs p)" if "list_all (list_all (\<lambda>x. x = 0)) ss"
  proof -
    have "\<forall>je \<in> set (zip [0..<length ss] ss). list_all (\<lambda>x. x = 0) (snd je)"
    proof
      fix je assume je: "je \<in> set (zip [0..<length ss] ss)"
      have "(fst je, snd je) \<in> set (zip [0..<length ss] ss)" using je by simp
      then have "snd je \<in> set ss" by (rule set_zip_rightD)
      then show "list_all (\<lambda>x. x = 0) (snd je)" using that by (simp add: list_all_iff)
    qed
    then show ?thesis using F(3) by simp
  qed
  then show ?thesis using F(1,2) Some by (simp add: inelastic_forces_def)
qed

lemma wf_ex_pair: "wf_solid ex_pair"
  by (simp add: wf_solid_def ex_pair_def wf_etype_def Tetra1_def is_mat_def wf_element_def ex_C_def)

text \<open>
  Claim C4: in the integration of element stiffness and inelastic force, a quadrature
  point of an element with \<open>detJ \<le> 0\<close> makes the computation raise the geometry error:
  \<open>k(j)\<close> and \<open>f(j, eps)\<close> of that element, and with them \<open>stiffness()\<close> and
  \<open>solve()\<close>, return the error and no matrix or vector. Conversely, when \<open>detJ > 0\<close> at
  every quadrature point of every element, every element integration and the assembly
  return their results and \<open>solve()\<close> does not raise the geometry error.
\<close>

theorem geometry_error_guard:
  assumes "wf_solid p" and "etype p = Some et"
  shows "(\<forall>j < length (elements p). nonpositive_jacobian p et j \<longrightarrow>
            Solid_k p j = Inl GeometryError \<and> Solid_f p j eps = Inl GeometryError) \<and>
         (\<not> positive_jacobians p et \<longrightarrow>
            Solid_stiffness p = Inl GeometryError \<and> Solid_solve p = Inl GeometryError) \<and>
         (positive_jacobians p et \<longrightarrow>
            (\<forall>j < length (elements p).
               (\<exists>k. Solid_k p j = Inr k) \<and> (\<exists>f. Solid_f p j eps = Inr f)) \<and>
            (\<exists>K. Solid_stiffness p = Inr K) \<and> (\<exists>F. inelastic_forces p = Inr F) \<and>
            Solid_solve p \<noteq> Inl GeometryError)"
proof (intro conjI allI impI)
  fix j assume "j < length (elements p)" "nonpositive_jacobian p et j"
  then show "Solid_k p j = Inl GeometryError" "Solid_f p j eps = Inl GeometryError"
    using Solid_k_geometry [OF assms] Solid_f_geometry [OF assms] by simp_all
next
  assume "\<not> positive_jacobians p et"
  then obtain j where "j < length (elements p)" "nonpositive_jacobian p et j"
    unfolding positive_jacobians_iff by blast
  then show s: "Solid_stiffness p = Inl GeometryError"
    by (rule Solid_stiffness_geometry [OF assms])
  then show "Solid_solve p = Inl GeometryError" by (simp add: Solid_solve_def)
next
  fix j assume "positive_jacobians p et" "j < length (elements p)"
  then have "\<not> nonpositive_jacobian p et j" by (simp add: positive_jacobians_iff)
  with \<open>j < length (elements p)\<close>
  show "\<exists>k. Solid_k p j = Inr k" "\<exists>f. Solid_f p j eps = Inr f"
    using Solid_k_ok [OF assms] Solid_f_ok [OF assms] by blast+
next
  assume pos: "positive_jacobians p et"
  from Solid_stiffness_ok [OF assms] pos obtain K where K: "Solid_stiffness p = Inr K"
    unfolding positive_jacobians_iff by blast
  from inelastic_forces_geometry_free [OF assms pos] obtain F where F: "inelastic_forces p = Inr F"
    by blast
  show "\<exists>K. Solid_stiffness p = Inr K" using K by blast
  show "\<exists>F. inelastic_forces p = Inr F" using F by blast
  show "Solid_solve p \<noteq> Inl GeometryError"
    by (simp add: Solid_solve_def K F Let_def split: option.splits)
qed

theorem geometry_error_guard_witness:
  "wf_solid ex_inverted \<and> etype ex_inverted = Some Tetra1 \<and>
   nonpositive_jacobian ex_inverted Tetra1 0 \<and>
   Solid_k ex_inverted 0 = Inl GeometryError \<and>
   Solid_f ex_inverted 0 [1, 0, 0, 0, 0, 0] = Inl GeometryError \<and>
   Solid_stiffness ex_inverted = Inl GeometryError \<and>
   Solid_solve ex_inverted = Inl GeometryError \<and>
   wf_solid ex_pair \<and> etype ex_pair = Some Tetra1 \<and> positive_jacobians ex_pair Tetra1 \<and>
   (\<exists>k. Solid_k ex_pair 1 = Inr k) \<and> (\<exists>K. Solid_stiffness ex_pair = Inr K) \<and>
   Solid_solve ex_pair \<noteq> Inl GeometryError"
proof -
  have e: "etype ex_inverted = Some Tetra1" by (simp add: ex_inverted_def ex_solid_def)
  have n: "nonpositive_jacobian ex_inverted Tetra1 0" by code_simp
  then have np: "\<not> positive_jacobians ex_inverted Tetra1"
    by (simp add: positive_jacobians_iff ex_inverted_def ex_solid_def)
  have l: "(0::nat) < length (elements ex_inverted)" by (simp add: ex_inverted_def ex_solid_def)
  note bad = geometry_error_guard [OF wf_ex_inverted e, of "[1, 0, 0, 0, 0, 0]"]
  have e2: "etype ex_pair = Some Tetra1" by (simp add: ex_pair_def)
  have pos: "positive_jacobians ex_pair Tetra1" by code_simp
  have l2: "(1::nat) < length (elements ex_pair)" by (simp add: ex_pair_def)
  note good = geometry_error_guard [OF wf_ex_pair e2, of "[]"]
  from bad n np l good pos l2 wf_ex_inverted wf_ex_pair e e2 show ?thesis by blast
qed

text \<open>
  Claim C6: for a mesh with positive Jacobian determinants and a symmetric constitutive
  tensor, \<open>stiffness()\<close> returns a matrix that equals its transpose, entry by entry.
\<close>

theorem Solid_stiffness_symmetric:
  assumes "wf_solid p" and "etype p = Some et" and "positive_jacobians p et"
    and "mT (C p) = C p"
  shows "\<exists>K. Solid_stiffness p = Inr K \<and> is_mat (n_dofs p) (n_dofs p) K \<and> mT K = K \<and>
           (\<forall>r < n_dofs p. \<forall>c < n_dofs p. K ! r ! c = K ! c ! r)"
proof -
  from Solid_stiffness_ok [OF assms(1,2)] assms(3,4) obtain K where
    K: "Solid_stiffness p = Inr K" "is_mat (n_dofs p) (n_dofs p) K"
      "\<forall>r < n_dofs p. \<forall>c < n_dofs p. K ! r ! c = K ! c ! r"
    unfolding positive_jacobians_iff by blast
  have "mT K = K" using K(2,3) by (intro symmetric_mT [where n = "n_dofs p"]) simp_all
  with K show ?thesis by blast
qed

theorem Solid_stiffness_symmetric_witness:
  "wf_solid ex_pair \<and> etype ex_pair = Some Tetra1 \<and> positive_jacobians ex_pair Tetra1 \<and>
   mT (C ex_pair) = C ex_pair \<and>
   (\<exists>K. Solid_stiffness ex_pair = Inr K \<and> is_mat 15 15 K \<and> mT K = K \<and> K ! 3 ! 7 = K ! 7 ! 3)"
proof -
  have e: "etype ex_pair = Some Tetra1" by (simp add: ex_pair_def)
  have pos: "positive_jacobians ex_pair Tetra1" by code_simp
  have c: "mT (C ex_pair) = C ex_pair" by code_simp
  have n: "n_dofs ex_pair = 15" by (simp add: ex_pair_def)
  from Solid_stiffness_symmetric [OF wf_ex_pair e pos c] n wf_ex_pair e pos c
  show ?thesis by auto
qed

section \<open>Boundary reduction and solve\<close>

lemma length_concat_is_mat: "is_mat n m M \<Longrightarrow> length (concat M) = n * m"
  using length_concat_fixed [of M m] by (simp add: is_mat_def list_all_iff)

lemma set_nonzero: "i \<in> set (nonzero fl) \<longleftrightarrow> i < length fl \<and> fl ! i"
  by (auto simp: nonzero_def)

lemma distinct_nonzero: "distinct (nonzero fl)"
  by (simp add: nonzero_def)

lemma nonzero_Not: "nonzero (map Not fl) = filter (\<lambda>i. \<not> fl ! i) [0..<length fl]"
  by (auto simp: nonzero_def intro: filter_cong)

lemma length_put: "length (put u idx vals) = length u"
  by (simp add: put_def foldl_put1_length)

lemma foldl_put1_other:
  "i \<notin> fst ` set ups \<Longrightarrow> foldl (\<lambda>v' (i, x). v'[i := x]) v ups ! i = v ! i"
  by (induction ups arbitrary: v) (auto simp: split_beta)

lemma put_other: "i \<notin> set idx \<Longrightarrow> put u idx vals ! i = u ! i"
proof -
  assume "i \<notin> set idx"
  then have "i \<notin> fst ` set (zip idx vals)" by (auto dest: set_zip_leftD)
  then show ?thesis unfolding put_def by (rule foldl_put1_other)
qed

lemma put_hit:
  "distinct idx \<Longrightarrow> length vals = length idx \<Longrightarrow> t < length idx \<Longrightarrow>
   \<forall>i \<in> set idx. i < length u \<Longrightarrow> put u idx vals ! (idx ! t) = vals ! t"
proof (induction idx arbitrary: vals u t)
  case Nil
  then show ?case by simp
next
  case (Cons i idx)
  obtain x vals' where vals: "vals = x # vals'" using Cons.prems(2) by (cases vals) auto
  have step: "put u (i # idx) vals = put (u[i := x]) idx vals'"
    by (simp add: put_def vals)
  show ?case
  proof (cases t)
    case 0
    have "i \<notin> set idx" using Cons.prems(1) by simp
    then have "put (u[i := x]) idx vals' ! i = u[i := x] ! i" by (rule put_other)
    then show ?thesis using 0 step vals Cons.prems(4) by simp
  next
    case (Suc t')
    have "put (u[i := x]) idx vals' ! (idx ! t') = vals' ! t'"
      using Cons.prems Suc vals by (intro Cons.IH) simp_all
    then show ?thesis using Suc step vals by simp
  qed
qed

lemma nth_reshape3:
  assumes "i < length v div 3" "j < 3"
  shows "reshape3 v ! i ! j = v ! (3 * i + j)"
proof -
  have "j = 0 \<or> j = 1 \<or> j = 2" using assms(2) by arith
  then show ?thesis using assms(1) by (auto simp: reshape3_def)
qed

lemma concat_reshape3:
  assumes "length v = 3 * N"
  shows "concat (reshape3 v) = v"
proof (rule nth_equalityI)
  have rows: "\<forall>xs \<in> set (reshape3 v). length xs = 3" by (auto simp: reshape3_def)
  have len: "length (reshape3 v) = N" using assms by (simp add: reshape3_def)
  show l: "length (concat (reshape3 v)) = length v"
    using length_concat_fixed [OF rows] len assms by simp
  fix k assume "k < length (concat (reshape3 v))"
  then have k: "k < 3 * N" using l assms by simp
  then have i: "k div 3 < N" and j: "k mod 3 < 3" by auto
  have "concat (reshape3 v) ! (k div 3 * 3 + k mod 3) = reshape3 v ! (k div 3) ! (k mod 3)"
    using rows i j len by (intro nth_concat_fixed) simp_all
  moreover have "reshape3 v ! (k div 3) ! (k mod 3) = v ! (3 * (k div 3) + k mod 3)"
    using i j assms by (intro nth_reshape3) simp_all
  ultimately show "concat (reshape3 v) ! k = v ! k" by (simp add: mult.commute)
qed

lemma linalg_solve_sound:
  assumes "is_mat m m A" "length b = m" "linalg_solve A b = Some x"
  shows "length x = m" and "matvec A x = b"
    and "\<And>y. length y = m \<Longrightarrow> matvec A y = b \<Longrightarrow> y = x"
proof -
  have g: "gauss m (zip A b) = Some x" using assms(2,3) by (simp add: linalg_solve_def)
  have lz: "length (zip A b) = m" using assms(1,2) by (simp add: is_matD)
  have rows: "\<forall>r \<in> set (zip A b). length (fst r) = m"
    using assms(1) by (auto simp: is_mat_def list_all_iff dest: set_zip_leftD)
  show "length x = m" using g by (rule gauss_length)
  show "matvec A x = b"
  proof (rule nth_equalityI)
    show "length (matvec A x) = length b" using assms(1,2) by (simp add: length_matvec is_matD)
    fix i assume "i < length (matvec A x)"
    then have i: "i < m" using assms(1) by (simp add: length_matvec is_matD)
    then have "(A ! i, b ! i) \<in> set (zip A b)"
      using assms(1,2) by (auto simp: set_zip is_matD)
    from gauss_sound [OF g lz rows this] show "matvec A x ! i = b ! i"
      using i assms(1) by (simp add: matvec_def is_matD)
  qed
  show "y = x" if "length y = m" "matvec A y = b" for y
  proof (rule gauss_unique [OF g rows that(1)])
    show "\<forall>r \<in> set (zip A b). dot (fst r) y = snd r"
    proof
      fix r assume "r \<in> set (zip A b)"
      then obtain i where i: "i < m" "r = (A ! i, b ! i)"
        using assms(1,2) by (auto simp: set_zip is_matD)
      have "matvec A y ! i = b ! i" using that(2) by simp
      then show "dot (fst r) y = snd r" using i assms(1) by (simp add: matvec_def is_matD)
    qed
  qed
qed

text \<open>
  The solver returns exactly on the nonsingular matrices: when no remaining equation has a
  nonzero coefficient in a column, the unit vector of that column extends to a nonzero
  vector that the matrix maps to zero.
\<close>

lemma find_pivot_None: "find_pivot rows = None \<Longrightarrow> \<forall>r \<in> set rows. lead (fst r) = 0"
  by (induction rows) (auto split: if_splits option.splits)

lemma dot_replicate_zero: "dot u (replicate n 0) = 0"
  by (rule dot_zero_right) (simp add: list_all_iff)

lemma dot_add_right:
  "length u = length v \<Longrightarrow> length v = length w \<Longrightarrow> dot u (map2 (+) v w) = dot u v + dot u w"
  by (induction u v w rule: list_induct3) (simp_all add: algebra_simps)

lemma eliminate_homogeneous:
  assumes "fst p = a # as" "a \<noteq> 0" "length (fst r) = Suc (length ys)" "length as = length ys"
  shows "dot (fst (eliminate p r)) ys = 0 \<longleftrightarrow> dot (fst r) (- dot as ys / a # ys) = 0"
proof -
  have e: "fst (eliminate (a # as, 0) (fst r, 0)) = fst (eliminate p r)"
    "snd (eliminate (a # as, 0) (fst r, 0)) = 0"
    by (simp_all add: eliminate_def Let_def assms(1))
  from eliminate_row [of "(a # as, 0)" a as "(fst r, 0)" ys] assms(2-4)
  show ?thesis by (simp add: e)
qed

lemma gauss_complete:
  "\<forall>r \<in> set rows. length (fst r) = n \<Longrightarrow>
   \<forall>x. length x = n \<longrightarrow> (\<forall>r \<in> set rows. dot (fst r) x = 0) \<longrightarrow> x = replicate n 0 \<Longrightarrow>
   \<exists>xs. gauss n rows = Some xs"
proof (induction n arbitrary: rows)
  case 0
  show ?case by simp
next
  case (Suc n)
  have "find_pivot rows \<noteq> None"
  proof
    assume "find_pivot rows = None"
    then have z: "\<forall>r \<in> set rows. lead (fst r) = 0" by (rule find_pivot_None)
    have "\<forall>r \<in> set rows. dot (fst r) (1 # replicate n 0) = 0"
    proof
      fix r assume r: "r \<in> set rows"
      then obtain c cs where c: "fst r = c # cs" using Suc.prems(1) by (cases "fst r") auto
      then have "c = 0" using z r by auto
      then show "dot (fst r) (1 # replicate n 0) = 0" by (simp add: c dot_replicate_zero)
    qed
    then have "1 # replicate n 0 = replicate (Suc n) (0::real)"
      using Suc.prems(2) by (intro Suc.prems(2) [rule_format]) simp_all
    then show False by simp
  qed
  then obtain p rest where fp: "find_pivot rows = Some (p, rest)"
    by (cases "find_pivot rows") auto
  from find_pivot_Some [OF fp] have
    nz: "lead (fst p) \<noteq> 0" and rows: "set rows = insert p (set rest)" by auto
  have lp: "length (fst p) = Suc n" using Suc.prems(1) rows by auto
  then obtain a as where p: "fst p = a # as" by (cases "fst p") auto
  have a: "a \<noteq> 0" using nz p by simp
  have las: "length as = n" using lp p by simp
  have "\<exists>zs. gauss n (map (eliminate p) rest) = Some zs"
  proof (rule Suc.IH)
    show "\<forall>r\<in>set (map (eliminate p) rest). length (fst r) = n"
      using Suc.prems(1) rows lp by (auto intro: length_eliminate)
    show "\<forall>ys. length ys = n \<longrightarrow> (\<forall>e\<in>set (map (eliminate p) rest). dot (fst e) ys = 0) \<longrightarrow>
            ys = replicate n 0"
    proof (intro allI impI)
      fix ys assume ly: "length ys = n"
        and k: "\<forall>e\<in>set (map (eliminate p) rest). dot (fst e) ys = 0"
      let ?x = "- dot as ys / a # ys"
      have "\<forall>r \<in> set rows. dot (fst r) ?x = 0"
      proof
        fix r assume "r \<in> set rows"
        then consider "r = p" | "r \<in> set rest" using rows by auto
        then show "dot (fst r) ?x = 0"
        proof cases
          case 1
          then show ?thesis using a by (simp add: p)
        next
          case 2
          have lr: "length (fst r) = Suc n" using Suc.prems(1) rows 2 by auto
          have "dot (fst (eliminate p r)) ys = 0" using k 2 by simp
          then show ?thesis using eliminate_homogeneous [OF p a, of r ys] lr las ly by simp
        qed
      qed
      then have "?x = replicate (Suc n) 0"
        using ly by (intro Suc.prems(2) [rule_format]) simp_all
      then show "ys = replicate n 0" by simp
    qed
  qed
  then show ?case using fp by auto
qed

lemma linalg_solve_complete:
  assumes "is_mat m m A" "length b = m" "nonsingular A"
  shows "\<exists>x. linalg_solve A b = Some x"
proof -
  have lA: "length A = m" using assms(1) by (simp add: is_matD)
  have rows: "\<forall>r \<in> set (zip A b). length (fst r) = m"
    using assms(1) by (auto simp: is_mat_def list_all_iff dest: set_zip_leftD)
  have ker: "\<forall>x. length x = m \<longrightarrow> (\<forall>r \<in> set (zip A b). dot (fst r) x = 0) \<longrightarrow> x = replicate m 0"
  proof (intro allI impI)
    fix x assume lx: "length x = m" and k: "\<forall>r \<in> set (zip A b). dot (fst r) x = 0"
    have "matvec A x = zeros_vec (length A)"
    proof (rule nth_equalityI)
      show "length (matvec A x) = length (zeros_vec (length A))"
        by (simp add: length_matvec zeros_vec_def)
      fix i assume "i < length (matvec A x)"
      then have i: "i < m" using lA by (simp add: length_matvec)
      then have "(A ! i, b ! i) \<in> set (zip A b)" using lA assms(2) by (auto simp: set_zip)
      then have "dot (A ! i) x = 0" using k by auto
      then show "matvec A x ! i = zeros_vec (length A) ! i"
        using i lA by (simp add: matvec_def zeros_vec_def)
    qed
    then have "x = zeros_vec (length A)" using assms(3) lx lA by (simp add: nonsingular_def)
    then show "x = replicate m 0" using lA by (simp add: zeros_vec_def)
  qed
  from gauss_complete [OF rows ker] show ?thesis using assms(2) by (simp add: linalg_solve_def)
qed

lemma linalg_solve_nonsingular:
  assumes "is_mat m m A" "length b = m" "linalg_solve A b = Some x"
  shows "nonsingular A"
  unfolding nonsingular_def
proof (intro allI impI)
  note sol = linalg_solve_sound [OF assms]
  have lA: "length A = m" using assms(1) by (simp add: is_matD)
  fix y assume ly: "length y = length A" and k: "matvec A y = zeros_vec (length A)"
  have "matvec A (vec_add x y) = b"
  proof (rule nth_equalityI)
    show "length (matvec A (vec_add x y)) = length b" using lA assms(2) by (simp add: length_matvec)
    fix i assume "i < length (matvec A (vec_add x y))"
    then have i: "i < m" using lA by (simp add: length_matvec)
    have r: "length (A ! i) = m" using assms(1) i by (simp add: is_matD)
    have "matvec A x ! i = b ! i" by (simp add: sol(2))
    then have 1: "dot (A ! i) x = b ! i" using i lA by (simp add: matvec_def)
    have "matvec A y ! i = 0" using k i lA by (simp add: zeros_vec_def)
    then have 2: "dot (A ! i) y = 0" using i lA by (simp add: matvec_def)
    have "dot (A ! i) (vec_add x y) = dot (A ! i) x + dot (A ! i) y"
      unfolding vec_add_def using r sol(1) ly lA by (intro dot_add_right) simp_all
    then show "matvec A (vec_add x y) ! i = b ! i" using 1 2 i lA by (simp add: matvec_def)
  qed
  moreover have "length (vec_add x y) = m" using sol(1) ly lA by (simp add: vec_add_def)
  ultimately have e: "vec_add x y = x" by (intro sol(3))
  show "y = zeros_vec (length A)"
  proof (rule nth_equalityI)
    show "length y = length (zeros_vec (length A))" using ly by (simp add: zeros_vec_def)
    fix i assume i: "i < length y"
    have "vec_add x y ! i = x ! i" by (simp add: e)
    then show "y ! i = zeros_vec (length A) ! i"
      using i ly lA sol(1) by (simp add: vec_add_def zeros_vec_def)
  qed
qed

lemma linalg_solve_returns_iff:
  assumes "is_mat m m A" "length b = m"
  shows "(\<exists>x. linalg_solve A b = Some x) \<longleftrightarrow> nonsingular A"
  using linalg_solve_complete [OF assms] linalg_solve_nonsingular [OF assms] by blast

lemma dot_pick: "dot (pick row idx) (pick u idx) = (\<Sum>t\<leftarrow>idx. row ! t * u ! t)"
  by (simp add: dot_def pick_def zip_map_map zip_same_conv_map o_def)

lemma sum_list_filter_split:
  "sum_list (map g (filter P xs)) + sum_list (map g (filter (\<lambda>x. \<not> P x) xs)) =
   sum_list (map g xs)" for g :: "nat \<Rightarrow> real"
  by (induction xs) simp_all

lemma dot_upt: "length row = length u \<Longrightarrow> dot row u = (\<Sum>t\<leftarrow>[0..<length u]. row ! t * u ! t)"
  by (simp add: dot_sum sum_list_sum_nth atLeast0LessThan)

lemma dot_split:
  assumes "length row = length fl" "length u = length fl"
  shows "dot row u =
     dot (pick row (nonzero fl)) (pick u (nonzero fl)) +
     dot (pick row (nonzero (map Not fl))) (pick u (nonzero (map Not fl)))"
  using assms sum_list_filter_split [of "\<lambda>t. row ! t * u ! t" "\<lambda>i. fl ! i" "[0..<length fl]"]
  by (simp add: dot_pick dot_upt nonzero_Not) (simp add: nonzero_def)

lemma wf_solid_boundary:
  assumes "wf_solid p"
  shows "length (concat (constraints p)) = n_dofs p"
    and "length (concat (displacements p)) = n_dofs p"
    and "length (concat (forces p)) = n_dofs p"
    and "n_dofs p = 3 * length (nodes p)"
  using assms
  by (auto simp: wf_solid_def length_concat_is_mat split: option.splits)

lemma con_dofs_iff:
  "i \<in> set (con_dofs p) \<longleftrightarrow> i < length (concat (constraints p)) \<and> concat (constraints p) ! i"
  by (simp add: con_dofs_def set_nonzero)

lemma uncon_dofs_iff:
  "i \<in> set (uncon_dofs p) \<longleftrightarrow> i < length (concat (constraints p)) \<and> \<not> concat (constraints p) ! i"
  by (auto simp: uncon_dofs_def set_nonzero)

lemma reduced_load_entries:
  assumes "wf_solid p" "is_mat (n_dofs p) (n_dofs p) K" "length F = n_dofs p"
  shows "reduced_load p K F =
     map (\<lambda>i. concat (forces p) ! i + F ! i
               - (\<Sum>t\<leftarrow>con_dofs p. K ! i ! t * concat (displacements p) ! t))
       (uncon_dofs p)"
proof -
  let ?n = "n_dofs p"
  define fd where "fd = matvec (map (\<lambda>row. pick row (con_dofs p)) K)
               (pick (concat (displacements p)) (con_dofs p))"
  note b = wf_solid_boundary [OF assms(1)]
  have lfd: "length fd = ?n" using assms(2) by (simp add: fd_def length_matvec is_matD)
  have fd: "fd ! i = (\<Sum>t\<leftarrow>con_dofs p. K ! i ! t * concat (displacements p) ! t)"
    if "i < ?n" for i
    using that assms(2) by (simp add: fd_def matvec_def is_matD dot_pick)
  have "reduced_load p K F = pick (vec_add (vec_sub (concat (forces p)) fd) F) (uncon_dofs p)"
    by (simp add: reduced_load_def Let_def fd_def)
  also have "\<dots> = map (\<lambda>i. vec_add (vec_sub (concat (forces p)) fd) F ! i) (uncon_dofs p)"
    by (simp add: pick_def)
  also have "\<dots> = map (\<lambda>i. concat (forces p) ! i + F ! i
               - (\<Sum>t\<leftarrow>con_dofs p. K ! i ! t * concat (displacements p) ! t))
          (uncon_dofs p)"
  proof (rule map_cong [OF refl])
    fix i assume "i \<in> set (uncon_dofs p)"
    then have i: "i < ?n" using b(1) by (simp add: uncon_dofs_iff)
    show "vec_add (vec_sub (concat (forces p)) fd) F ! i =
          concat (forces p) ! i + F ! i
            - (\<Sum>t\<leftarrow>con_dofs p. K ! i ! t * concat (displacements p) ! t)"
      using i b(3) lfd assms(3) fd [OF i] by (simp add: vec_add_def vec_sub_def)
  qed
  finally show ?thesis .
qed

lemma reduced_stiffness_entries:
  assumes "wf_solid p" "is_mat (n_dofs p) (n_dofs p) K"
  shows "reduced_stiffness p K = map (\<lambda>i. map (\<lambda>j. K ! i ! j) (uncon_dofs p)) (uncon_dofs p)"
    and "is_mat (length (uncon_dofs p)) (length (uncon_dofs p)) (reduced_stiffness p K)"
  by (simp_all add: reduced_stiffness_def pick_def is_mat_def list_all_iff)

lemma length_reduced_load: "length (reduced_load p K F) = length (uncon_dofs p)"
  by (simp add: reduced_load_def pick_def Let_def)

lemma solve_structure:
  assumes wf: "wf_solid p" and K: "Solid_stiffness p = Inr K" and F: "inelastic_forces p = Inr F"
    and S: "linalg_solve (reduced_stiffness p K) (reduced_load p K F) = Some u_red"
  defines "u \<equiv> put (concat (displacements p)) (uncon_dofs p) u_red"
  shows "Solid_solve p = Inr (reshape3 u, reshape3 (matvec K u))"
    and "concat (reshape3 u) = u"
    and "concat (reshape3 (matvec K u)) = matvec K u"
    and "length u_red = length (uncon_dofs p)"
    and "matvec (reduced_stiffness p K) u_red = reduced_load p K F"
    and "\<And>y. length y = length (uncon_dofs p) \<Longrightarrow>
           matvec (reduced_stiffness p K) y = reduced_load p K F \<Longrightarrow> y = u_red"
    and "\<And>i. i \<in> set (con_dofs p) \<Longrightarrow> u ! i = concat (displacements p) ! i"
    and "\<And>t. t < length (uncon_dofs p) \<Longrightarrow> u ! (uncon_dofs p ! t) = u_red ! t"
    and "\<And>i. i \<in> set (uncon_dofs p) \<Longrightarrow> matvec K u ! i = concat (forces p) ! i + F ! i"
proof -
  let ?n = "n_dofs p"
  let ?un = "uncon_dofs p"
  let ?cn = "con_dofs p"
  let ?d = "concat (displacements p)"
  let ?fl = "concat (constraints p)"
  note b = wf_solid_boundary [OF wf]
  have Ks: "is_mat ?n ?n K" using wf K by (rule Solid_stiffness_shape)
  have lF: "length F = ?n" using F by (rule inelastic_forces_length)
  note red = reduced_stiffness_entries [OF wf Ks]
  note sol = linalg_solve_sound [OF red(2) length_reduced_load S]
  show "Solid_solve p = Inr (reshape3 u, reshape3 (matvec K u))"
    by (simp add: Solid_solve_def K F S Let_def u_def)
  have lu: "length u = ?n" by (simp add: u_def length_put b(2))
  show "concat (reshape3 u) = u" using lu b(4) by (intro concat_reshape3) simp
  show "concat (reshape3 (matvec K u)) = matvec K u"
    using Ks b(4) by (intro concat_reshape3) (simp add: length_matvec is_matD)
  show lr: "length u_red = length ?un" by (rule sol(1))
  show "matvec (reduced_stiffness p K) u_red = reduced_load p K F" by (rule sol(2))
  show "y = u_red" if "length y = length ?un" "matvec (reduced_stiffness p K) y = reduced_load p K F"
    for y using that by (rule sol(3))
  have dun: "distinct ?un" by (simp add: uncon_dofs_def distinct_nonzero)
  have bun: "\<forall>i \<in> set ?un. i < length ?d" using b(1,2) by (simp add: uncon_dofs_iff)
  show ucon: "u ! i = ?d ! i" if "i \<in> set ?cn" for i
  proof -
    have "i \<notin> set ?un" using that by (simp add: con_dofs_iff uncon_dofs_iff)
    then show ?thesis unfolding u_def by (rule put_other)
  qed
  show uun: "u ! (?un ! t) = u_red ! t" if "t < length ?un" for t
    unfolding u_def using dun lr that bun by (rule put_hit)
  show "matvec K u ! i = concat (forces p) ! i + F ! i" if i: "i \<in> set ?un" for i
  proof -
    have il: "i < ?n" using i b(1) by (simp add: uncon_dofs_iff)
    obtain t where t: "t < length ?un" "?un ! t = i" using i by (auto simp: in_set_conv_nth)
    have row: "length (K ! i) = length ?fl" using Ks il b(1) by (simp add: is_matD)
    have "matvec K u ! i = dot (K ! i) u" using il Ks by (simp add: matvec_def is_matD)
    also have "\<dots> = dot (pick (K ! i) ?cn) (pick u ?cn) + dot (pick (K ! i) ?un) (pick u ?un)"
      using dot_split [OF row, of u] lu b(1) by (simp add: con_dofs_def uncon_dofs_def)
    also have "pick u ?cn = pick ?d ?cn"
      unfolding pick_def by (rule map_cong [OF refl]) (rule ucon)
    also have "pick u ?un = u_red"
      by (rule nth_equalityI) (simp_all add: pick_def lr uun)
    also have "dot (pick (K ! i) ?un) u_red = matvec (reduced_stiffness p K) u_red ! t"
      using t by (simp add: matvec_def red(1) pick_def)
    also have "\<dots> = reduced_load p K F ! t" by (simp add: sol(2))
    also have "\<dots> = concat (forces p) ! i + F ! i
               - (\<Sum>t\<leftarrow>?cn. K ! i ! t * ?d ! t)"
      using t by (simp add: reduced_load_entries [OF wf Ks lF])
    finally show ?thesis by (simp add: dot_pick)
  qed
qed

section \<open>The examples, evaluated\<close>

text \<open>
  Stiffness and boundary data are independent: \<open>stiffness()\<close> reads the nodes, the
  elements, the element type, the constitutive tensor and the index maps only.
\<close>

lemma Solid_J_frame:
  "Solid_J (p\<lparr>forces := fs, displacements := ds, constraints := cs, strains := ss\<rparr>) q nds =
   Solid_J p q nds"
  by (simp add: Solid_J_def)

lemma Solid_D_frame:
  "Solid_D (p\<lparr>forces := fs, displacements := ds, constraints := cs, strains := ss\<rparr>) Bm =
   Solid_D p Bm"
  by (simp add: Solid_D_def)

lemma k_loop_frame:
  "k_loop (p\<lparr>forces := fs, displacements := ds, constraints := cs, strains := ss\<rparr>) nds wqs k =
   k_loop p nds wqs k"
  by (induction p nds wqs k rule: k_loop.induct)
     (simp_all add: Solid_J_frame Solid_D_frame split: sum.splits option.splits prod.splits)

lemma f_loop_frame:
  "f_loop (p\<lparr>forces := fs, displacements := ds, constraints := cs, strains := ss\<rparr>) nds eps wqs f =
   f_loop p nds eps wqs f"
  by (induction p nds eps wqs f rule: f_loop.induct)
     (simp_all add: Solid_J_frame Solid_D_frame split: sum.splits option.splits prod.splits)

lemma Solid_k_frame:
  "Solid_k (p\<lparr>forces := fs, displacements := ds, constraints := cs, strains := ss\<rparr>) j =
   Solid_k p j"
  by (simp add: Solid_k_def k_loop_frame split: sum.splits option.splits)

lemma Solid_f_frame:
  "Solid_f (p\<lparr>forces := fs, displacements := ds, constraints := cs, strains := ss\<rparr>) j eps =
   Solid_f p j eps"
  by (simp add: Solid_f_def f_loop_frame split: sum.splits option.splits)

lemma stiffness_loop_frame:
  "stiffness_loop (p\<lparr>forces := fs, displacements := ds, constraints := cs, strains := ss\<rparr>) js K =
   stiffness_loop p js K"
  by (induction js arbitrary: K)
     (simp_all add: Solid_k_frame split: sum.splits option.splits prod.splits)

lemma Solid_stiffness_frame:
  "Solid_stiffness (p\<lparr>forces := fs, displacements := ds, constraints := cs, strains := ss\<rparr>) =
   Solid_stiffness p"
  by (simp add: Solid_stiffness_def stiffness_loop_frame)

lemma Solid_k_ex: "Solid_k ex_solid 0 = Inr ex_K"
  by (simp add: Solid_k_def take_rows_def Solid_J_def Solid_D_def matmul_def dot_def col_def
      ncols_def mT_def scal_mat_def mat_scal_def mat_add_def vec_add_def linalg_det_def
      linalg_inv_def stack3_def zeros_vec_def zeros_mat_def quadrature_def Tetra1_def
      ex_solid_def ex_nodes_def ex_C_def ex_K_def Let_def upt_rec numeral_nat)

lemma assemble_ex:
  "(case meshgrid_xy [0..<12] [0..<12] of (X, Y) \<Rightarrow>
      (case index2 (zeros_mat 12 12) X Y of Inl e \<Rightarrow> Inl e
       | Inr Kg \<Rightarrow> Inr (index_put2 (zeros_mat 12 12) X Y (mat_add Kg ex_K)))) = Inr ex_K"
  by (simp add: meshgrid_xy_def index2_def index_put2_def zeros_mat_def mat_add_def vec_add_def
      ncols_def ex_K_def upt_rec numeral_nat)

lemma Solid_stiffness_ex: "Solid_stiffness ex_solid = Inr ex_K"
proof -
  have g: "global_indices ex_solid = [meshgrid_xy [0..<12] [0..<12]]"
    and e: "length (elements ex_solid) = 1" and n: "n_dofs ex_solid = 12"
    by (simp_all add: ex_solid_def)
  obtain X Y where xy: "meshgrid_xy [0..<12] [0..<12] = (X, Y)" by (cases "meshgrid_xy [0..<12] [0..<12]")
  from assemble_ex obtain Kg where
    Kg: "index2 (zeros_mat 12 12) X Y = Inr Kg"
    and put: "index_put2 (zeros_mat 12 12) X Y (mat_add Kg ex_K) = ex_K"
    by (auto simp: xy split: sum.splits)
  show ?thesis
    by (simp add: Solid_stiffness_def e n g xy Kg Solid_k_ex put)
qed

lemma Solid_stiffness_variants:
  "Solid_stiffness ex_rest = Inr ex_K"
  "Solid_stiffness ex_loaded = Inr ex_K"
  "Solid_stiffness ex_thermal = Inr ex_K"
  using Solid_stiffness_frame [where p = ex_solid and fs = "forces ex_solid"
      and ds = "displacements ex_solid" and cs = ex_held and ss = "strains ex_solid"]
    Solid_stiffness_frame [where p = ex_solid and fs = "[[0, 0, 0], [1, 0, 0], [0, 0, 0], [0, 0, 0]]"
      and ds = "[[0, 0, 0], [0, 1 / 2, 0], [0, 0, 0], [0, 0, 0]]" and cs = ex_held
      and ss = "strains ex_solid"]
    Solid_stiffness_frame [where p = ex_solid and fs = "forces ex_solid"
      and ds = "displacements ex_solid" and cs = ex_held and ss = "Some [[1, 0, 0, 0, 0, 0]]"]
  by (simp_all add: ex_rest_def ex_loaded_def ex_thermal_def Solid_stiffness_ex)

lemma red_loaded:
  "reduced_stiffness ex_loaded ex_K =
     [[1 / 6, 0, 0, 0, 0, 0], [0, 1 / 12, 0, 0, 0, 0], [0, 0, 1 / 6, 0, 0, 0],
      [0, 0, 0, 1 / 12, 0, 0], [0, 0, 0, 0, 1 / 12, 0], [0, 0, 0, 0, 0, 1 / 6]]"
  "reduced_load ex_loaded ex_K (zeros_vec 12) = [1, - (1 / 24), 0, 0, 0, 0]"
  by (simp_all add: con_dofs_def uncon_dofs_def nonzero_def reduced_stiffness_def
      reduced_load_def pick_def matvec_def dot_def vec_add_def vec_sub_def zeros_vec_def Let_def
      ex_K_def ex_held_def upt_rec numeral_nat ex_loaded_def ex_solid_def)

lemma solve_loaded:
  "linalg_solve
     [[1 / 6, 0, 0, 0, 0, 0], [0, 1 / 12, 0, 0, 0, 0], [0, 0, 1 / 6, 0, 0, 0],
      [0, 0, 0, 1 / 12, 0, 0], [0, 0, 0, 0, 1 / 12, 0], [0, 0, 0, 0, 0, 1 / 6]]
     [1, - (1 / 24), 0, 0, 0, 0] = Some [6, - (1 / 2), 0, 0, 0, 0]"
  by (simp add: linalg_solve_def eliminate_def dot_def)

lemma inelastic_none:
  "inelastic_forces ex_solid = Inr (zeros_vec 12)"
  "inelastic_forces ex_rest = Inr (zeros_vec 12)"
  "inelastic_forces ex_loaded = Inr (zeros_vec 12)"
  by (simp_all add: inelastic_forces_def ex_rest_def ex_loaded_def ex_solid_def)

lemma Solid_solve_ex_loaded:
  "Solid_solve ex_loaded =
     Inr ([[0, 0, 0], [6, 1 / 2, 0], [- (1 / 2), 0, 0], [0, 0, 0]],
          [[- 1, 0, 0], [1, 0, 0], [0, 0, 0], [0, 0, 0]])"
proof -
  have un: "uncon_dofs ex_loaded = [3, 6, 7, 9, 10, 11]"
    by (simp add: uncon_dofs_def nonzero_def ex_loaded_def ex_solid_def ex_held_def upt_rec numeral_nat)
  have d: "concat (displacements ex_loaded) = [0, 0, 0, 0, 1 / 2, 0, 0, 0, 0, 0, 0, 0]"
    by (simp add: ex_loaded_def ex_solid_def)
  have u: "put [0, 0, 0, 0, 1 / 2, 0, 0, 0, 0, 0, 0, 0] [3, 6, 7, 9, 10, 11] [6, - (1 / 2), 0, 0, 0, 0]
           = [0, 0, 0, 6, 1 / 2, 0, - (1 / 2), 0, 0, 0, 0, 0]"
    by (simp add: put_def numeral_nat)
  have f: "matvec ex_K [0, 0, 0, 6, 1 / 2, 0, - (1 / 2), 0, 0, 0, 0, 0]
           = [- 1, 0, 0, 1, 0, 0, 0, 0, 0, 0, 0, 0]"
    by (simp add: matvec_def dot_def ex_K_def)
  have r: "reshape3 [0, 0, 0, 6, 1 / 2, 0, - (1 / 2), 0, 0, 0, 0, 0] =
             [[0, 0, 0], [6, 1 / 2, 0], [- (1 / 2), 0, 0], [0, 0, 0]]"
    "reshape3 [- 1, 0, 0, 1, 0, 0, 0, 0, 0, 0, 0, 0] =
             [[- 1, 0, 0], [1, 0, 0], [0, 0, 0], [0, 0, 0]]"
    by code_simp+
  show ?thesis
    by (simp add: Solid_solve_def Solid_stiffness_variants inelastic_none red_loaded solve_loaded
        un d u f r)
qed

lemma Solid_f_ex:
  "Solid_f ex_solid 0 [1, 0, 0, 0, 0, 0] = Inr [- (1 / 6), 0, 0, 1 / 6, 0, 0, 0, 0, 0, 0, 0, 0]"
  by (simp add: Solid_f_def take_rows_def Solid_J_def Solid_D_def matmul_def matvec_def dot_def col_def
      ncols_def mT_def scal_mat_def vec_scal_def vec_add_def linalg_det_def
      linalg_inv_def stack3_def zeros_vec_def quadrature_def Tetra1_def
      ex_solid_def ex_nodes_def ex_C_def Let_def upt_rec numeral_nat)

lemma scatter_f_ex:
  "(case index1 (zeros_vec 12) (fst (meshgrid_xy [0..<12] [0..<12])) of Inl e \<Rightarrow> Inl e
    | Inr Fg \<Rightarrow> Inr (index_put1 (zeros_vec 12) (fst (meshgrid_xy [0..<12] [0..<12]))
        (map (\<lambda>row. vec_add row [- (1 / 6), 0, 0, 1 / 6, 0, 0, 0, 0, 0, 0, 0, 0]) Fg)))
   = Inr [- (1 / 6), 0, 0, 1 / 6, 0, 0, 0, 0, 0, 0, 0, 0]"
  by (simp add: meshgrid_xy_def index1_def index_put1_def zeros_vec_def vec_add_def
      upt_rec numeral_nat)

lemma inelastic_thermal:
  "inelastic_forces ex_thermal = Inr [- (1 / 6), 0, 0, 1 / 6, 0, 0, 0, 0, 0, 0, 0, 0]"
proof -
  have f: "Solid_f ex_thermal 0 [1, 0, 0, 0, 0, 0] =
           Inr [- (1 / 6), 0, 0, 1 / 6, 0, 0, 0, 0, 0, 0, 0, 0]"
    using Solid_f_frame [where p = ex_solid and fs = "forces ex_solid"
      and ds = "displacements ex_solid" and cs = ex_held and ss = "Some [[1, 0, 0, 0, 0, 0]]"]
    by (simp add: ex_thermal_def Solid_f_ex)
  have g: "global_indices ex_thermal = [meshgrid_xy [0..<12] [0..<12]]"
    and n: "n_dofs ex_thermal = 12" and s: "strains ex_thermal = Some [[1, 0, 0, 0, 0, 0]]"
    by (simp_all add: ex_thermal_def ex_solid_def)
  from scatter_f_ex obtain Fg where
    Fg: "index1 (zeros_vec 12) (fst (meshgrid_xy [0..<12] [0..<12])) = Inr Fg"
    and put: "index_put1 (zeros_vec 12) (fst (meshgrid_xy [0..<12] [0..<12]))
        (map (\<lambda>row. vec_add row [- (1 / 6), 0, 0, 1 / 6, 0, 0, 0, 0, 0, 0, 0, 0]) Fg)
        = [- (1 / 6), 0, 0, 1 / 6, 0, 0, 0, 0, 0, 0, 0, 0]"
    by (auto split: sum.splits)
  show ?thesis
    by (simp add: inelastic_forces_def s n g Fg f put)
qed

lemma solve_singular:
  "linalg_solve ex_K [0, 0, 0, 0, 0, 0, 0, 0, 0, 0, 0, 0] = None"
  by (simp add: linalg_solve_def eliminate_def dot_def ex_K_def)

section \<open>The solve\<close>

lemma Solid_solve_Inr:
  assumes "Solid_solve p = Inr (u, f)"
  obtains K F u_red where "Solid_stiffness p = Inr K" "inelastic_forces p = Inr F"
    "linalg_solve (reduced_stiffness p K) (reduced_load p K F) = Some u_red"
  using assms by (auto simp: Solid_solve_def Let_def split: sum.splits option.splits)

lemma wf_variants:
  "wf_solid ex_rest" "wf_solid ex_loaded" "wf_solid ex_thermal"
  by (simp_all add: wf_solid_def ex_rest_def ex_loaded_def ex_thermal_def ex_solid_def ex_held_def
      wf_etype_def Tetra1_def is_mat_def wf_element_def ex_nodes_def ex_zero_def ex_C_def
      dof_indices_def upt_rec numeral_nat)

lemma Solid_solve_ex_thermal:
  "Solid_solve ex_thermal =
     Inr ([[0, 0, 0], [1, 0, 0], [0, 0, 0], [0, 0, 0]],
          [[- (1 / 6), 0, 0], [1 / 6, 0, 0], [0, 0, 0], [0, 0, 0]])"
proof -
  have red: "reduced_stiffness ex_thermal ex_K =
     [[1 / 6, 0, 0, 0, 0, 0], [0, 1 / 12, 0, 0, 0, 0], [0, 0, 1 / 6, 0, 0, 0],
      [0, 0, 0, 1 / 12, 0, 0], [0, 0, 0, 0, 1 / 12, 0], [0, 0, 0, 0, 0, 1 / 6]]"
    "reduced_load ex_thermal ex_K [- (1 / 6), 0, 0, 1 / 6, 0, 0, 0, 0, 0, 0, 0, 0] =
       [1 / 6, 0, 0, 0, 0, 0]"
    by (simp_all add: con_dofs_def uncon_dofs_def nonzero_def reduced_stiffness_def
      reduced_load_def pick_def matvec_def dot_def vec_add_def vec_sub_def Let_def
      ex_K_def ex_held_def ex_zero_def ex_thermal_def ex_solid_def upt_rec numeral_nat)
  have sol: "linalg_solve
     [[1 / 6, 0, 0, 0, 0, 0], [0, 1 / 12, 0, 0, 0, 0], [0, 0, 1 / 6, 0, 0, 0],
      [0, 0, 0, 1 / 12, 0, 0], [0, 0, 0, 0, 1 / 12, 0], [0, 0, 0, 0, 0, 1 / 6]]
     [1 / 6, 0, 0, 0, 0, 0] = Some [1, 0, 0, 0, 0, 0]"
    by (simp add: linalg_solve_def eliminate_def dot_def)
  have un: "uncon_dofs ex_thermal = [3, 6, 7, 9, 10, 11]"
    by (simp add: uncon_dofs_def nonzero_def ex_thermal_def ex_solid_def ex_held_def upt_rec numeral_nat)
  have d: "concat (displacements ex_thermal) = [0, 0, 0, 0, 0, 0, 0, 0, 0, 0, 0, 0]"
    by (simp add: ex_thermal_def ex_solid_def ex_zero_def)
  have u: "put [0, 0, 0, 0, 0, 0, 0, 0, 0, 0, 0, 0] [3, 6, 7, 9, 10, 11] [1, 0, 0, 0, 0, 0]
           = [0, 0, 0, 1, 0, 0, 0, 0, 0, 0, 0, 0]"
    by (simp add: put_def numeral_nat)
  have f: "matvec ex_K [0, 0, 0, 1, 0, 0, 0, 0, 0, 0, 0, 0]
           = [- (1 / 6), 0, 0, 1 / 6, 0, 0, 0, 0, 0, 0, 0, 0]"
    by (simp add: matvec_def dot_def ex_K_def)
  have r: "reshape3 [0, 0, 0, 1, 0, 0, 0, 0, 0, 0, 0, 0] =
             [[0, 0, 0], [1, 0, 0], [0, 0, 0], [0, 0, 0]]"
    "reshape3 [- (1 / 6), 0, 0, 1 / 6, 0, 0, 0, 0, 0, 0, 0, 0] =
             [[- (1 / 6), 0, 0], [1 / 6, 0, 0], [0, 0, 0], [0, 0, 0]]"
    by code_simp+
  show ?thesis
    by (simp add: Solid_solve_def Solid_stiffness_variants inelastic_thermal red sol un d u f r)
qed

lemma Solid_solve_ex_rest:
  "Solid_solve ex_rest =
     Inr ([[0, 0, 0], [0, 0, 0], [0, 0, 0], [0, 0, 0]],
          [[0, 0, 0], [0, 0, 0], [0, 0, 0], [0, 0, 0]])"
proof -
  have red: "reduced_stiffness ex_rest ex_K =
     [[1 / 6, 0, 0, 0, 0, 0], [0, 1 / 12, 0, 0, 0, 0], [0, 0, 1 / 6, 0, 0, 0],
      [0, 0, 0, 1 / 12, 0, 0], [0, 0, 0, 0, 1 / 12, 0], [0, 0, 0, 0, 0, 1 / 6]]"
    "reduced_load ex_rest ex_K (zeros_vec 12) = [0, 0, 0, 0, 0, 0]"
    by (simp_all add: con_dofs_def uncon_dofs_def nonzero_def reduced_stiffness_def
      reduced_load_def pick_def matvec_def dot_def vec_add_def vec_sub_def zeros_vec_def Let_def
      ex_K_def ex_held_def ex_zero_def ex_rest_def ex_solid_def upt_rec numeral_nat)
  have sol: "linalg_solve
     [[1 / 6, 0, 0, 0, 0, 0], [0, 1 / 12, 0, 0, 0, 0], [0, 0, 1 / 6, 0, 0, 0],
      [0, 0, 0, 1 / 12, 0, 0], [0, 0, 0, 0, 1 / 12, 0], [0, 0, 0, 0, 0, 1 / 6]]
     [0, 0, 0, 0, 0, 0] = Some [0, 0, 0, 0, 0, 0]"
    by (simp add: linalg_solve_def eliminate_def dot_def)
  have un: "uncon_dofs ex_rest = [3, 6, 7, 9, 10, 11]"
    by (simp add: uncon_dofs_def nonzero_def ex_rest_def ex_solid_def ex_held_def upt_rec numeral_nat)
  have d: "concat (displacements ex_rest) = [0, 0, 0, 0, 0, 0, 0, 0, 0, 0, 0, 0]"
    by (simp add: ex_rest_def ex_solid_def ex_zero_def)
  have u: "put [0, 0, 0, 0, 0, 0, 0, 0, 0, 0, 0, 0] [3, 6, 7, 9, 10, 11] [0, 0, 0, 0, 0, 0]
           = [0, 0, 0, 0, 0, 0, 0, 0, 0, 0, 0, 0]"
    by (simp add: put_def numeral_nat)
  have f: "matvec ex_K [0, 0, 0, 0, 0, 0, 0, 0, 0, 0, 0, 0]
           = [0, 0, 0, 0, 0, 0, 0, 0, 0, 0, 0, 0]"
    by (simp add: matvec_def dot_def ex_K_def)
  have r: "reshape3 [0, 0, 0, 0, 0, 0, 0, 0, 0, 0, 0, 0] =
             [[0, 0, 0], [0, 0, 0], [0, 0, 0], [0, 0, 0]]"
    by code_simp
  show ?thesis
    by (simp add: Solid_solve_def Solid_stiffness_variants inelastic_none red sol un d u f r)
qed

lemma Solid_solve_ex_solid: "Solid_solve ex_solid = Inl NumericalError"
proof -
  have red: "reduced_stiffness ex_solid ex_K = ex_K"
    "reduced_load ex_solid ex_K (zeros_vec 12) = [0, 0, 0, 0, 0, 0, 0, 0, 0, 0, 0, 0]"
    by (simp_all add: con_dofs_def uncon_dofs_def nonzero_def reduced_stiffness_def
      reduced_load_def pick_def matvec_def dot_def vec_add_def vec_sub_def zeros_vec_def Let_def
      ex_K_def ex_free_def ex_zero_def ex_solid_def upt_rec numeral_nat)
  show ?thesis
    by (simp add: Solid_solve_def Solid_stiffness_ex inelastic_none red solve_singular)
qed

lemma Solid_stiffness_positive:
  assumes "wf_solid p" "etype p = Some et" "Solid_stiffness p = Inr K"
  shows "positive_jacobians p et"
proof (rule ccontr)
  assume "\<not> positive_jacobians p et"
  then obtain j where "j < length (elements p)" "nonpositive_jacobian p et j"
    unfolding positive_jacobians_iff by blast
  then have "Solid_stiffness p = Inl GeometryError"
    by (rule Solid_stiffness_geometry [OF assms(1,2)])
  then show False using assms(3) by simp
qed

text \<open>
  A solvable problem is solved: the stiffness assembles only on positive Jacobians, so the
  inelastic forces assemble too, and the solver returns on the nonsingular reduced
  stiffness. Conversely a solve that returns was of a solvable problem.
\<close>

lemma solvable_solves:
  assumes "wf_solid p" "solvable p"
  obtains K F u_red where "Solid_stiffness p = Inr K" "inelastic_forces p = Inr F"
    "linalg_solve (reduced_stiffness p K) (reduced_load p K F) = Some u_red"
proof -
  from assms(2) obtain K where K: "Solid_stiffness p = Inr K"
    and ns: "nonsingular (reduced_stiffness p K)" by (auto simp: solvable_def)
  from assms(1) obtain et where et: "etype p = Some et"
    by (auto simp: wf_solid_def split: option.splits)
  have "positive_jacobians p et" using assms(1) et K by (rule Solid_stiffness_positive)
  from inelastic_forces_geometry_free [OF assms(1) et this]
  obtain F where F: "inelastic_forces p = Inr F" by blast
  have Ks: "is_mat (n_dofs p) (n_dofs p) K" using assms(1) K by (rule Solid_stiffness_shape)
  note red = reduced_stiffness_entries [OF assms(1) Ks]
  from linalg_solve_complete [OF red(2) length_reduced_load ns]
  obtain u_red where "linalg_solve (reduced_stiffness p K) (reduced_load p K F) = Some u_red"
    by blast
  with K F show ?thesis by (rule that)
qed

lemma Solid_solve_returns_iff:
  assumes "wf_solid p"
  shows "(\<exists>u f. Solid_solve p = Inr (u, f)) \<longleftrightarrow> solvable p"
proof
  assume "\<exists>u f. Solid_solve p = Inr (u, f)"
  then obtain u f where "Solid_solve p = Inr (u, f)" by blast
  then obtain K F u_red where
    K: "Solid_stiffness p = Inr K" and F: "inelastic_forces p = Inr F" and
    S: "linalg_solve (reduced_stiffness p K) (reduced_load p K F) = Some u_red"
    by (rule Solid_solve_Inr)
  have Ks: "is_mat (n_dofs p) (n_dofs p) K" using assms K by (rule Solid_stiffness_shape)
  note red = reduced_stiffness_entries [OF assms Ks]
  have "nonsingular (reduced_stiffness p K)"
    using red(2) length_reduced_load S by (rule linalg_solve_nonsingular)
  with K show "solvable p" by (auto simp: solvable_def)
next
  assume "solvable p"
  with assms obtain K F u_red where
    K: "Solid_stiffness p = Inr K" and F: "inelastic_forces p = Inr F" and
    S: "linalg_solve (reduced_stiffness p K) (reduced_load p K F) = Some u_red"
    by (rule solvable_solves)
  from solve_structure(1) [OF assms K F S] show "\<exists>u f. Solid_solve p = Inr (u, f)" by blast
qed

lemma nonsingular_ex:
  "nonsingular
     [[1 / 6, 0, 0, 0, 0, 0], [0, 1 / 12, 0, 0, 0, 0], [0, 0, 1 / 6, 0, 0, 0],
      [0, 0, 0, 1 / 12, 0, 0], [0, 0, 0, 0, 1 / 12, 0], [0, 0, 0, 0, 0, 1 / 6]]"
  by (auto simp: nonsingular_def matvec_def dot_def zeros_vec_def numeral_nat length_Suc_conv)

lemma red_variants:
  "reduced_stiffness ex_rest ex_K =
     [[1 / 6, 0, 0, 0, 0, 0], [0, 1 / 12, 0, 0, 0, 0], [0, 0, 1 / 6, 0, 0, 0],
      [0, 0, 0, 1 / 12, 0, 0], [0, 0, 0, 0, 1 / 12, 0], [0, 0, 0, 0, 0, 1 / 6]]"
  "reduced_stiffness ex_thermal ex_K =
     [[1 / 6, 0, 0, 0, 0, 0], [0, 1 / 12, 0, 0, 0, 0], [0, 0, 1 / 6, 0, 0, 0],
      [0, 0, 0, 1 / 12, 0, 0], [0, 0, 0, 0, 1 / 12, 0], [0, 0, 0, 0, 0, 1 / 6]]"
  by (simp_all add: uncon_dofs_def nonzero_def reduced_stiffness_def pick_def
      ex_K_def ex_held_def ex_rest_def ex_thermal_def ex_solid_def upt_rec numeral_nat)

lemma solvable_variants: "solvable ex_rest" "solvable ex_loaded" "solvable ex_thermal"
  unfolding solvable_def
  using nonsingular_ex by (simp_all add: Solid_stiffness_variants red_variants red_loaded)

lemma singular_ex: "\<not> solvable ex_solid"
  using Solid_solve_returns_iff [OF wf_ex_solid] by (simp add: Solid_solve_ex_solid)



text \<open>
  Claim C5 says that on a solvable problem the returned force \<open>f = K @ u\<close> equals the
  external force at every free degree of freedom. With an inelastic strain it does not:
  the held tetrahedron, which is solvable, under a uniform strain and no external force
  returns the force \<open>1/6\<close> at the free degree of freedom 3.
\<close>

theorem force_balance_counterexample:
  "solvable ex_thermal \<and>
   Solid_solve ex_thermal =
     Inr ([[0, 0, 0], [1, 0, 0], [0, 0, 0], [0, 0, 0]],
          [[- (1 / 6), 0, 0], [1 / 6, 0, 0], [0, 0, 0], [0, 0, 0]]) \<and>
   \<not> concat (constraints ex_thermal) ! 3 \<and>
   concat (forces ex_thermal) ! 3 = 0 \<and>
   concat [[- (1 / 6), 0, 0], [1 / 6, 0, 0], [0, 0, 0], [0, 0, 0 :: real]] ! 3 = 1 / 6"
  by (simp add: Solid_solve_ex_thermal solvable_variants)
    (simp add: ex_thermal_def ex_solid_def ex_held_def ex_zero_def)

text \<open>
  Claim C5, amended: on every solvable problem \<open>solve()\<close> returns, and at every free degree
  of freedom the returned force equals the external force plus the assembled inelastic
  force; hence the external force when the problem has no inelastic strains.
\<close>

theorem Solid_solve_force_balance:
  assumes "wf_solid p" and "solvable p"
  shows "\<exists>u f F. Solid_solve p = Inr (u, f) \<and> inelastic_forces p = Inr F \<and>
           (\<forall>i < n_dofs p. \<not> concat (constraints p) ! i \<longrightarrow>
              concat f ! i = concat (forces p) ! i + F ! i) \<and>
           (strains p = None \<longrightarrow>
              (\<forall>i < n_dofs p. \<not> concat (constraints p) ! i \<longrightarrow>
                 concat f ! i = concat (forces p) ! i))"
proof -
  from assms obtain K F u_red where
    K: "Solid_stiffness p = Inr K" and F: "inelastic_forces p = Inr F" and
    S: "linalg_solve (reduced_stiffness p K) (reduced_load p K F) = Some u_red"
    by (rule solvable_solves)
  define uf where "uf = put (concat (displacements p)) (uncon_dofs p) u_red"
  note st = solve_structure [OF assms(1) K F S, folded uf_def]
  note b = wf_solid_boundary [OF assms(1)]
  let ?f = "reshape3 (matvec K uf)"
  have bal: "concat ?f ! i = concat (forces p) ! i + F ! i"
    if "i < n_dofs p" "\<not> concat (constraints p) ! i" for i
  proof -
    have "i \<in> set (uncon_dofs p)" using that b(1) by (simp add: uncon_dofs_iff)
    then show ?thesis using st(9) by (simp add: st(3))
  qed
  have "concat ?f ! i = concat (forces p) ! i"
    if "strains p = None" "i < n_dofs p" "\<not> concat (constraints p) ! i" for i
  proof -
    have "F = zeros_vec (n_dofs p)" using F that(1) by (simp add: inelastic_forces_def)
    then have "F ! i = 0" using that(2) by (simp add: zeros_vec_def)
    then show ?thesis using bal [OF that(2,3)] by simp
  qed
  with F bal st(1) show ?thesis by blast
qed

text \<open>
  On the strained tetrahedron the force at the free degree of freedom 3 is the inelastic
  force \<open>1/6\<close>; on the loaded one, which has no strains, it is the external force.
\<close>

theorem Solid_solve_force_balance_witness:
  "wf_solid ex_thermal \<and> solvable ex_thermal \<and>
   \<not> concat (constraints ex_thermal) ! 3 \<and>
   (\<exists>u f F. Solid_solve ex_thermal = Inr (u, f) \<and>
      f = [[- (1 / 6), 0, 0], [1 / 6, 0, 0], [0, 0, 0], [0, 0, 0]] \<and>
      inelastic_forces ex_thermal = Inr F \<and> F ! 3 = 1 / 6 \<and>
      concat f ! 3 = concat (forces ex_thermal) ! 3 + F ! 3) \<and>
   wf_solid ex_loaded \<and> solvable ex_loaded \<and> strains ex_loaded = None \<and>
   \<not> concat (constraints ex_loaded) ! 3 \<and>
   (\<exists>u f. Solid_solve ex_loaded = Inr (u, f) \<and>
      f = [[- 1, 0, 0], [1, 0, 0], [0, 0, 0], [0, 0, 0]] \<and>
      concat f ! 3 = concat (forces ex_loaded) ! 3)"
proof -
  have c: "\<not> concat (constraints ex_thermal) ! 3" "(3::nat) < n_dofs ex_thermal"
    by (simp_all add: ex_thermal_def ex_solid_def ex_held_def)
  from Solid_solve_force_balance [OF wf_variants(3) solvable_variants(3)] c obtain u f F where
    F: "Solid_solve ex_thermal = Inr (u, f)" "inelastic_forces ex_thermal = Inr F"
      "concat f ! 3 = concat (forces ex_thermal) ! 3 + F ! 3"
    by blast
  have F3: "F ! 3 = 1 / 6" using F(2) by (auto simp: inelastic_thermal)
  have f: "f = [[- (1 / 6), 0, 0], [1 / 6, 0, 0], [0, 0, 0], [0, 0, 0]]"
    using F(1) by (simp add: Solid_solve_ex_thermal)
  have c2: "\<not> concat (constraints ex_loaded) ! 3" "(3::nat) < n_dofs ex_loaded"
    "strains ex_loaded = None"
    by (simp_all add: ex_loaded_def ex_solid_def ex_held_def)
  from Solid_solve_force_balance [OF wf_variants(2) solvable_variants(2)] c2 obtain u' f' where
    L: "Solid_solve ex_loaded = Inr (u', f')" "concat f' ! 3 = concat (forces ex_loaded) ! 3"
    by blast
  have f': "f' = [[- 1, 0, 0], [1, 0, 0], [0, 0, 0], [0, 0, 0]]"
    using L(1) by (simp add: Solid_solve_ex_loaded)
  show ?thesis
    using wf_variants(2,3) solvable_variants(2,3) c(1) c2(1,3) F F3 f L f' by blast
qed

lemma matvec_zero:
  "list_all (\<lambda>x. x = 0) v \<Longrightarrow> matvec A v = zeros_vec (length A)"
  by (simp add: matvec_def zeros_vec_def dot_zero_right map_replicate_const)

lemma sum_list_zero: "(\<And>x. x \<in> set xs \<Longrightarrow> g x = 0) \<Longrightarrow> sum_list (map g xs) = 0" for g :: "nat \<Rightarrow> real"
  by (induction xs) simp_all

text \<open>
  Claim C2 says that a single element with no constrained degree of freedom, no external
  force and no inelastic strain is solved, with zero displacement. It is not solved: the
  reduced stiffness is then the whole stiffness matrix, which is singular (it maps the
  rigid translation along \<open>x\<close> to zero), and the dense solver raises the numerical error.
\<close>

theorem trivial_solve_counterexample:
  "wf_solid ex_solid \<and> length (elements ex_solid) = 1 \<and> con_dofs ex_solid = [] \<and>
   concat (forces ex_solid) = zeros_vec 12 \<and> strains ex_solid = None \<and>
   Solid_stiffness ex_solid = Inr ex_K \<and>
   matvec ex_K [1, 0, 0, 1, 0, 0, 1, 0, 0, 1, 0, 0] = zeros_vec 12 \<and>
   Solid_solve ex_solid = Inl NumericalError"
proof -
  have "con_dofs ex_solid = []"
    by (simp add: con_dofs_def nonzero_def ex_solid_def ex_free_def upt_rec numeral_nat)
  moreover have "concat (forces ex_solid) = zeros_vec 12"
    by (simp add: ex_solid_def ex_zero_def zeros_vec_def numeral_nat)
  moreover have "matvec ex_K [1, 0, 0, 1, 0, 0, 1, 0, 0, 1, 0, 0] = zeros_vec 12"
    by (simp add: matvec_def dot_def ex_K_def zeros_vec_def numeral_nat)
  moreover have "length (elements ex_solid) = 1" "strains ex_solid = None"
    by (simp_all add: ex_solid_def)
  ultimately show ?thesis
    using wf_ex_solid Solid_stiffness_ex Solid_solve_ex_solid by simp
qed

text \<open>
  Claim C2, amended: for every problem with zero external force, zero or absent
  inelastic strain and zero prescribed displacement at the constrained degrees of
  freedom, a \<open>solve()\<close> that returns gives a displacement that is exactly zero at every
  degree of freedom.
\<close>

theorem trivial_solve_zero:
  assumes "wf_solid p" and "Solid_solve p = Inr (u, f)"
    and "list_all (list_all (\<lambda>x. x = 0)) (forces p)"
    and "case strains p of None \<Rightarrow> True | Some ss \<Rightarrow> list_all (list_all (\<lambda>x. x = 0)) ss"
    and "list_all (\<lambda>i. concat (displacements p) ! i = 0) (con_dofs p)"
  shows "concat u = zeros_vec (n_dofs p)"
proof -
  from assms(1) obtain et where et: "etype p = Some et"
    by (auto simp: wf_solid_def split: option.splits)
  from assms(2) obtain K F u_red where
    K: "Solid_stiffness p = Inr K" and F: "inelastic_forces p = Inr F" and
    S: "linalg_solve (reduced_stiffness p K) (reduced_load p K F) = Some u_red"
    by (rule Solid_solve_Inr)
  note st = solve_structure [OF assms(1) K F S]
  note b = wf_solid_boundary [OF assms(1)]
  have Ks: "is_mat (n_dofs p) (n_dofs p) K" using assms(1) K by (rule Solid_stiffness_shape)
  have lF: "length F = n_dofs p" using F by (rule inelastic_forces_length)
  have pos: "positive_jacobians p et" using assms(1) et K by (rule Solid_stiffness_positive)
  have Fz: "F = zeros_vec (n_dofs p)"
    using inelastic_forces_geometry_free [OF assms(1) et pos] F assms(4) by auto
  have fz: "concat (forces p) ! i = 0" if "i < n_dofs p" for i
  proof -
    have "concat (forces p) ! i \<in> set (concat (forces p))"
      using that b(3) by (intro nth_mem) simp
    then obtain row where "row \<in> set (forces p)" "concat (forces p) ! i \<in> set row"
      unfolding set_concat by blast
    then show ?thesis using assms(3) by (auto simp: list_all_iff)
  qed
  let ?un = "uncon_dofs p"
  have load: "reduced_load p K F = zeros_vec (length ?un)"
    unfolding reduced_load_entries [OF assms(1) Ks lF]
  proof (rule nth_equalityI)
    show "length (map (\<lambda>i. concat (forces p) ! i + F ! i
            - (\<Sum>t\<leftarrow>con_dofs p. K ! i ! t * concat (displacements p) ! t)) ?un) =
          length (zeros_vec (length ?un))"
      by (simp add: zeros_vec_def)
    fix t assume "t < length (map (\<lambda>i. concat (forces p) ! i + F ! i
            - (\<Sum>t\<leftarrow>con_dofs p. K ! i ! t * concat (displacements p) ! t)) ?un)"
    then have t: "t < length ?un" by simp
    then have "?un ! t \<in> set ?un" by simp
    then have i: "?un ! t < n_dofs p" using b(1) by (simp add: uncon_dofs_iff)
    have "(\<Sum>s\<leftarrow>con_dofs p. K ! (?un ! t) ! s * concat (displacements p) ! s) = 0"
      using assms(5) by (intro sum_list_zero) (simp add: list_all_iff)
    then show "map (\<lambda>i. concat (forces p) ! i + F ! i
            - (\<Sum>t\<leftarrow>con_dofs p. K ! i ! t * concat (displacements p) ! t)) ?un ! t =
          zeros_vec (length ?un) ! t"
      using t i fz [OF i] by (simp add: Fz zeros_vec_def)
  qed
  have "zeros_vec (length ?un) = u_red"
  proof (rule st(6))
    show "length (zeros_vec (length ?un)) = length ?un" by (simp add: zeros_vec_def)
    have "matvec (reduced_stiffness p K) (zeros_vec (length ?un)) =
          zeros_vec (length (reduced_stiffness p K))"
      by (rule matvec_zero) (simp add: zeros_vec_def list_all_length)
    then show "matvec (reduced_stiffness p K) (zeros_vec (length ?un)) = reduced_load p K F"
      using reduced_stiffness_entries(2) [OF assms(1) Ks] load by (simp add: is_matD)
  qed
  then have ur: "u_red ! t = 0" if "t < length ?un" for t
    using that by (auto simp: zeros_vec_def)
  have u: "concat u = put (concat (displacements p)) ?un u_red"
    using st(1,2) assms(2) by simp
  show ?thesis
  proof (rule nth_equalityI)
    show "length (concat u) = length (zeros_vec (n_dofs p))"
      by (simp add: u length_put b(2) zeros_vec_def)
    fix i assume "i < length (concat u)"
    then have i: "i < n_dofs p" by (simp add: u length_put b(2))
    show "concat u ! i = zeros_vec (n_dofs p) ! i"
    proof (cases "concat (constraints p) ! i")
      case True
      then have c: "i \<in> set (con_dofs p)" using i b(1) by (simp add: con_dofs_iff)
      then have "concat (displacements p) ! i = 0" using assms(5) by (simp add: list_all_iff)
      then show ?thesis using st(7) [OF c] u i by (simp add: zeros_vec_def)
    next
      case False
      then have "i \<in> set ?un" using i b(1) by (simp add: uncon_dofs_iff)
      then obtain t where t: "t < length ?un" "?un ! t = i" by (auto simp: in_set_conv_nth)
      then show ?thesis using st(8) [OF t(1)] ur [OF t(1)] u i by (simp add: zeros_vec_def)
    qed
  qed
qed

theorem trivial_solve_zero_witness:
  "wf_solid ex_rest \<and>
   Solid_solve ex_rest =
     Inr ([[0, 0, 0], [0, 0, 0], [0, 0, 0], [0, 0, 0]],
          [[0, 0, 0], [0, 0, 0], [0, 0, 0], [0, 0, 0]]) \<and>
   list_all (list_all (\<lambda>x. x = 0)) (forces ex_rest) \<and> strains ex_rest = None \<and>
   list_all (\<lambda>i. concat (displacements ex_rest) ! i = 0) (con_dofs ex_rest) \<and>
   concat [[0, 0, 0], [0, 0, 0], [0, 0, 0], [0, 0, 0 :: real]] = zeros_vec (n_dofs ex_rest)"
proof -
  have a: "list_all (list_all (\<lambda>x. x = 0)) (forces ex_rest)"
    by (simp add: ex_rest_def ex_solid_def ex_zero_def)
  have s: "strains ex_rest = None" by (simp add: ex_rest_def ex_solid_def)
  then have b: "case strains ex_rest of None \<Rightarrow> True
                | Some ss \<Rightarrow> list_all (list_all (\<lambda>x. x = 0)) ss" by simp
  have c: "list_all (\<lambda>i. concat (displacements ex_rest) ! i = 0) (con_dofs ex_rest)"
    by (simp add: con_dofs_def nonzero_def ex_rest_def ex_solid_def ex_zero_def ex_held_def
        upt_rec numeral_nat)
  from trivial_solve_zero [OF wf_variants(1) Solid_solve_ex_rest a b c] a s c
    wf_variants(1) Solid_solve_ex_rest
  show ?thesis by blast
qed

section \<open>The solve on a store: frame and refinement\<close>

subsection \<open>The methods preserve the cells allocated before the call\<close>

lemma preserved_refl: "preserved n h h"
  by (simp add: preserved_def)

lemma preserved_trans: "preserved n h h' \<Longrightarrow> preserved n h' h'' \<Longrightarrow> preserved n h h''"
  by (simp add: preserved_def)

lemma preserved_alloc: "n \<le> length h \<Longrightarrow> preserved n h (h @ [c])"
  by (simp add: preserved_def)

lemma preserved_write: "n \<le> a \<Longrightarrow> preserved n h (h[a := c])"
  by (simp add: preserved_def)

lemma preserved_alloc': "preserved n h h' \<Longrightarrow> n \<le> length h' \<Longrightarrow> preserved n h (h' @ [c])"
  by (auto simp: preserved_def)

lemma preserved_write': "preserved n h h' \<Longrightarrow> n \<le> a \<Longrightarrow> preserved n h (h'[a := c])"
  by (simp add: preserved_def)

lemma k_loop_h_preserved:
  "n \<le> k \<Longrightarrow> preserved n h (snd (k_loop_h obj nds wqs k h))"
proof (induction obj nds wqs k h rule: k_loop_h.induct)
  case (1 obj nds k h)
  show ?case by (simp add: preserved_refl)
next
  case (2 obj nds w q wqs k h)
  show ?case
  proof (cases "Solid_J (load obj h) q nds")
    case (Inl e)
    then show ?thesis by (simp add: preserved_refl)
  next
    case (Inr Jd)
    obtain J detJ where Jd: "Jd = (J, detJ)" by (cases Jd)
    show ?thesis
    proof (cases "obj_etype obj")
      case None
      then show ?thesis using Inr Jd by (simp add: preserved_refl)
    next
      case (Some et)
      show ?thesis
      proof (cases "Solid_D (load obj h) (matmul (linalg_inv J) (et_B et q))")
        case (Inl e)
        then show ?thesis using Inr Jd Some by (simp add: preserved_refl)
      next
        case D: (Inr D)
        let ?h = "h[k := Mat (mat_add (the_mat (h ! k))
                         (mat_scal (matmul (matmul (scal_mat w (mT D)) (C (load obj h))) D)
                            detJ))]"
        have "preserved n ?h (snd (k_loop_h obj nds wqs k ?h))"
          using "2.IH" [OF Inr Jd [symmetric] Some D] "2.prems" by simp
        moreover have "preserved n h ?h" using "2.prems" by (rule preserved_write)
        ultimately show ?thesis
          using Inr Jd Some D by (simp add: preserved_trans)
      qed
    qed
  qed
qed

lemma length_preserved: "preserved n h h' \<Longrightarrow> length h \<le> length h'"
  by (simp add: preserved_def)

lemma f_loop_h_preserved:
  "n \<le> f \<Longrightarrow> preserved n h (snd (f_loop_h obj nds eps wqs f h))"
proof (induction wqs arbitrary: h)
  case Nil
  show ?case by (simp add: preserved_refl)
next
  case (Cons wq wqs)
  obtain w q where wq: "wq = (w, q)" by (cases wq)
  show ?case
  proof (cases "Solid_J (load obj h) q nds")
    case (Inl e)
    then show ?thesis by (simp add: wq preserved_refl)
  next
    case (Inr Jd)
    obtain J detJ where Jd: "Jd = (J, detJ)" by (cases Jd)
    show ?thesis
    proof (cases "obj_etype obj")
      case None
      then show ?thesis using Inr Jd by (simp add: wq preserved_refl)
    next
      case (Some et)
      show ?thesis
      proof (cases "Solid_D (load obj h) (matmul (linalg_inv J) (et_B et q))")
        case (Inl e)
        then show ?thesis using Inr Jd Some by (simp add: wq preserved_refl)
      next
        case D: (Inr D)
        let ?h = "h[f := Vec (vec_add (the_vec (h ! f))
                     (vec_scal (matvec (matmul (scal_mat w (mT D)) (C (load obj h))) eps) detJ))]"
        have "preserved n ?h (snd (f_loop_h obj nds eps wqs f ?h))"
          using Cons.prems by (rule Cons.IH)
        moreover have "preserved n h ?h" using Cons.prems by (rule preserved_write)
        ultimately show ?thesis
          using Inr Jd Some D by (simp add: wq preserved_trans)
      qed
    qed
  qed
qed

lemma Solid_k_h_preserved:
  "n \<le> length h \<Longrightarrow> preserved n h (snd (Solid_k_h obj j h))"
proof -
  assume n: "n \<le> length h"
  have "preserved n h (snd (k_loop_h obj nds wqs (length h) (h @ [c])))" for nds wqs c
    using preserved_alloc [OF n] k_loop_h_preserved [OF n] by (rule preserved_trans)
  then show ?thesis
    by (auto simp: Solid_k_h_def preserved_refl split: sum.splits option.splits prod.splits)
       (metis snd_conv)+
qed

lemma Solid_f_h_preserved:
  "n \<le> length h \<Longrightarrow> preserved n h (snd (Solid_f_h obj j eps h))"
proof -
  assume n: "n \<le> length h"
  have "preserved n h (snd (f_loop_h obj nds eps wqs (length h) (h @ [c])))" for nds wqs c
    using preserved_alloc [OF n] f_loop_h_preserved [OF n] by (rule preserved_trans)
  then show ?thesis
    by (auto simp: Solid_f_h_def preserved_refl split: sum.splits option.splits prod.splits)
       (metis snd_conv)+
qed

lemma stiffness_loop_h_preserved:
  "n \<le> K \<Longrightarrow> n \<le> length h \<Longrightarrow> preserved n h (snd (stiffness_loop_h obj js K h))"
proof (induction js arbitrary: h)
  case Nil
  show ?case by (simp add: preserved_refl)
next
  case (Cons j js)
  show ?case
  proof (cases "length (global_indices_at obj) \<le> j")
    case True
    then show ?thesis by (simp add: preserved_refl)
  next
    case False
    obtain X Y where xy: "global_indices (load obj h) ! j = (X, Y)"
      by (cases "global_indices (load obj h) ! j")
    show ?thesis
    proof (cases "index2 (the_mat (h ! K)) X Y")
      case (Inl e)
      then show ?thesis using False xy by (simp add: preserved_refl)
    next
      case (Inr Kg)
      obtain r h' where k: "Solid_k_h obj j h = (r, h')" by (cases "Solid_k_h obj j h")
      have p1: "preserved n h h'"
        using Solid_k_h_preserved [OF Cons.prems(2), of obj j] k by simp
      show ?thesis
      proof (cases r)
        case (Inl e)
        then show ?thesis using False xy Inr k p1 by simp
      next
        case r: (Inr ak)
        let ?h = "h'[K := Mat (index_put2 (the_mat (h' ! K)) X Y (mat_add Kg (the_mat (h' ! ak))))]"
        have p2: "preserved n h ?h" using p1 Cons.prems(1) by (rule preserved_write')
        have "n \<le> length ?h" using Cons.prems(2) length_preserved [OF p1] by simp
        then have "preserved n ?h (snd (stiffness_loop_h obj js K ?h))"
          using Cons.prems(1) by (intro Cons.IH)
        then show ?thesis
          using False xy Inr k r p2 by (simp add: preserved_trans)
      qed
    qed
  qed
qed

lemma Solid_stiffness_h_preserved: "preserved (length h) h (snd (Solid_stiffness_h obj h))"
proof -
  let ?h = "h @ [Mat (zeros_mat (obj_n_dofs obj) (obj_n_dofs obj))]"
  have "preserved (length h) h ?h" by (simp add: preserved_alloc)
  moreover have "preserved (length h) ?h
      (snd (stiffness_loop_h obj [0..<length (obj_elements obj)] (length h) ?h))"
    by (rule stiffness_loop_h_preserved) simp_all
  ultimately have "preserved (length h) h
      (snd (stiffness_loop_h obj [0..<length (obj_elements obj)] (length h) ?h))"
    by (rule preserved_trans)
  then show ?thesis
    by (auto simp: Solid_stiffness_h_def split: prod.splits sum.splits)
qed

lemma inelastic_loop_h_preserved:
  "n \<le> F \<Longrightarrow> n \<le> length h \<Longrightarrow> preserved n h (snd (inelastic_loop_h obj jes F h))"
proof (induction jes arbitrary: h)
  case Nil
  show ?case by (simp add: preserved_refl)
next
  case (Cons je jes)
  obtain j eps where je: "je = (j, eps)" by (cases je)
  show ?case
  proof (cases "length (global_indices_at obj) \<le> j")
    case True
    then show ?thesis by (simp add: je preserved_refl)
  next
    case False
    let ?X = "fst (global_indices (load obj h) ! j)"
    show ?thesis
    proof (cases "index1 (the_vec (h ! F)) ?X")
      case (Inl e)
      then show ?thesis using False by (simp add: je preserved_refl)
    next
      case (Inr Fg)
      obtain r h' where f: "Solid_f_h obj j eps h = (r, h')" by (cases "Solid_f_h obj j eps h")
      have p1: "preserved n h h'"
        using Solid_f_h_preserved [OF Cons.prems(2), of obj j eps] f by simp
      show ?thesis
      proof (cases r)
        case (Inl e)
        then show ?thesis using False Inr f p1 by (simp add: je)
      next
        case r: (Inr fj)
        let ?h = "h'[F := Vec (index_put1 (the_vec (h' ! F)) ?X
                                 (map (\<lambda>row. vec_add row (the_vec (h' ! fj))) Fg))]"
        have p2: "preserved n h ?h" using p1 Cons.prems(1) by (rule preserved_write')
        have "n \<le> length ?h" using Cons.prems(2) length_preserved [OF p1] by simp
        then have "preserved n ?h (snd (inelastic_loop_h obj jes F ?h))"
          using Cons.prems(1) by (intro Cons.IH)
        then show ?thesis
          using False Inr f r p2 by (simp add: je preserved_trans)
      qed
    qed
  qed
qed

lemma Solid_solve_h_preserved: "preserved (length h) h (snd (Solid_solve_h obj h))"
proof -
  let ?n = "length h"
  obtain r1 h1 where s: "Solid_stiffness_h obj h = (r1, h1)" by (cases "Solid_stiffness_h obj h")
  have p1: "preserved ?n h h1" using Solid_stiffness_h_preserved [of h obj] s by simp
  have l1: "?n \<le> length h1" using p1 by (rule length_preserved)
  show ?thesis
  proof (cases r1)
    case (Inl e)
    then show ?thesis using s p1 by (simp add: Solid_solve_h_def)
  next
    case K: (Inr K)
    let ?h1 = "h1 @ [Vec (zeros_vec (obj_n_dofs obj))]"
    let ?in = "case strains (load obj h1) of
                   None \<Rightarrow> (Inr (), ?h1)
                 | Some ss \<Rightarrow> inelastic_loop_h obj (zip [0..<length ss] ss) (length h1) ?h1"
    obtain r2 h2 where i: "?in = (r2, h2)" by (cases ?in)
    have pa: "preserved ?n h ?h1" using p1 l1 by (rule preserved_alloc')
    have p2: "preserved ?n h h2"
    proof (cases "strains (load obj h1)")
      case None
      then show ?thesis using i pa by simp
    next
      case (Some ss)
      have "preserved ?n ?h1 (snd (inelastic_loop_h obj (zip [0..<length ss] ss) (length h1) ?h1))"
        using l1 by (intro inelastic_loop_h_preserved) simp_all
      then show ?thesis using i Some pa by (auto intro: preserved_trans)
    qed
    have l2: "?n \<le> length h2" using p2 by (rule length_preserved)
    show ?thesis
    proof (cases r2)
      case (Inl e)
      then show ?thesis using s K i p2 by (simp add: Solid_solve_h_def)
    next
      case r2: (Inr x)
      show ?thesis
      proof (cases "linalg_solve (reduced_stiffness (load obj h2) (the_mat (h2 ! K)))
                       (reduced_load (load obj h2) (the_mat (h2 ! K)) (the_vec (h2 ! length h1)))")
        case None
        then show ?thesis using s K i r2 p2 by (simp add: Solid_solve_h_def Let_def)
      next
        case (Some u_red)
        have "preserved ?n h (((h2 @ [c1])[length h2 := c2]) @ [c3])" for c1 c2 c3
        proof -
          have "preserved ?n h (h2 @ [c1])" using p2 l2 by (rule preserved_alloc')
          then have "preserved ?n h ((h2 @ [c1])[length h2 := c2])"
            using l2 by (rule preserved_write')
          then show ?thesis using l2 by (intro preserved_alloc') simp_all
        qed
        then show ?thesis using s K i r2 Some by (simp add: Solid_solve_h_def Let_def)
      qed
    qed
  qed
qed

subsection \<open>The methods on the store compute what the methods on values compute\<close>

lemma fields_belowD:
  assumes "fields_below obj n"
  shows "nodes_at obj < n" "forces_at obj < n" "displacements_at obj < n"
    "constraints_at obj < n" "C_at obj < n"
    "\<And>a. strains_at obj = Some a \<Longrightarrow> a < n"
    "\<And>ax ay. (ax, ay) \<in> set (global_indices_at obj) \<Longrightarrow> ax < n \<and> ay < n"
  using assms
  by (auto simp: fields_below_def obj_addrs_def list_all_iff split: option.splits)

lemma load_agree:
  assumes "fields_below obj n" "\<And>a. a < n \<Longrightarrow> h' ! a = h ! a"
  shows "load obj h' = load obj h"
proof -
  note d = fields_belowD [OF assms(1)]
  have "map_option (\<lambda>a. the_mat (h' ! a)) (strains_at obj) =
        map_option (\<lambda>a. the_mat (h ! a)) (strains_at obj)"
    using d(6) assms(2) by (cases "strains_at obj") simp_all
  moreover have "map (\<lambda>(ax, ay). (the_idx (h' ! ax), the_idx (h' ! ay))) (global_indices_at obj) =
        map (\<lambda>(ax, ay). (the_idx (h ! ax), the_idx (h ! ay))) (global_indices_at obj)"
    using d(7) assms(2) by (intro map_cong refl) auto
  ultimately show ?thesis
    using d(1-5) assms(2) by (simp add: load_def)
qed

lemma preserved_nth: "preserved n h h' \<Longrightarrow> a < n \<Longrightarrow> n \<le> length h \<Longrightarrow> h' ! a = h ! a"
proof -
  assume p: "preserved n h h'" and a: "a < n" and n: "n \<le> length h"
  have "take n h' ! a = take n h ! a" using p by (simp add: preserved_def)
  then show ?thesis using a by simp
qed

lemma load_preserved:
  "fields_below obj n \<Longrightarrow> preserved n h h' \<Longrightarrow> n \<le> length h \<Longrightarrow> load obj h' = load obj h"
  by (rule load_agree) (auto intro: preserved_nth)

lemma load_write: "fields_below obj n \<Longrightarrow> n \<le> k \<Longrightarrow> load obj (h[k := c]) = load obj h"
  by (rule load_agree) auto

lemma load_alloc: "fields_below obj (length h) \<Longrightarrow> load obj (h @ [c]) = load obj h"
  by (rule load_agree) (auto simp: nth_append)

lemma k_loop_h_refines:
  assumes "fields_below obj n" "n \<le> k"
  shows "k < length h \<Longrightarrow>
         (case k_loop (load obj h) nds wqs (the_mat (h ! k)) of
            Inl e \<Rightarrow> fst (k_loop_h obj nds wqs k h) = Inl e
          | Inr km \<Rightarrow> fst (k_loop_h obj nds wqs k h) = Inr () \<and>
                       the_mat (snd (k_loop_h obj nds wqs k h) ! k) = km)"
proof (induction wqs arbitrary: h)
  case Nil
  show ?case by simp
next
  case (Cons wq wqs)
  obtain w q where wq: "wq = (w, q)" by (cases wq)
  have et: "etype (load obj h) = obj_etype obj" by (simp add: load_def)
  show ?case
  proof (cases "Solid_J (load obj h) q nds")
    case (Inl e)
    then show ?thesis by (simp add: wq)
  next
    case (Inr Jd)
    obtain J detJ where Jd: "Jd = (J, detJ)" by (cases Jd)
    show ?thesis
    proof (cases "obj_etype obj")
      case None
      then show ?thesis using Inr Jd et by (simp add: wq)
    next
      case (Some et')
      show ?thesis
      proof (cases "Solid_D (load obj h) (matmul (linalg_inv J) (et_B et' q))")
        case (Inl e)
        then show ?thesis using Inr Jd Some et by (simp add: wq)
      next
        case D: (Inr D)
        let ?k = "mat_add (the_mat (h ! k))
                    (mat_scal (matmul (matmul (scal_mat w (mT D)) (C (load obj h))) D) detJ)"
        let ?h = "h[k := Mat ?k]"
        have l: "load obj ?h = load obj h" using assms by (rule load_write)
        have kk: "the_mat (?h ! k) = ?k" using Cons.prems by simp
        have "k < length ?h" using Cons.prems by simp
        from Cons.IH [OF this]
        have "case k_loop (load obj h) nds wqs ?k of
            Inl e \<Rightarrow> fst (k_loop_h obj nds wqs k ?h) = Inl e
          | Inr km \<Rightarrow> fst (k_loop_h obj nds wqs k ?h) = Inr () \<and>
                       the_mat (snd (k_loop_h obj nds wqs k ?h) ! k) = km"
          by (simp only: l kk)
        then show ?thesis using Inr Jd Some D et by (simp add: wq cong: sum.case_cong)
      qed
    qed
  qed
qed

lemma f_loop_h_refines:
  assumes "fields_below obj n" "n \<le> f"
  shows "f < length h \<Longrightarrow>
         (case f_loop (load obj h) nds eps wqs (the_vec (h ! f)) of
            Inl e \<Rightarrow> fst (f_loop_h obj nds eps wqs f h) = Inl e
          | Inr fm \<Rightarrow> fst (f_loop_h obj nds eps wqs f h) = Inr () \<and>
                       the_vec (snd (f_loop_h obj nds eps wqs f h) ! f) = fm)"
proof (induction wqs arbitrary: h)
  case Nil
  show ?case by simp
next
  case (Cons wq wqs)
  obtain w q where wq: "wq = (w, q)" by (cases wq)
  have et: "etype (load obj h) = obj_etype obj" by (simp add: load_def)
  show ?case
  proof (cases "Solid_J (load obj h) q nds")
    case (Inl e)
    then show ?thesis by (simp add: wq)
  next
    case (Inr Jd)
    obtain J detJ where Jd: "Jd = (J, detJ)" by (cases Jd)
    show ?thesis
    proof (cases "obj_etype obj")
      case None
      then show ?thesis using Inr Jd et by (simp add: wq)
    next
      case (Some et')
      show ?thesis
      proof (cases "Solid_D (load obj h) (matmul (linalg_inv J) (et_B et' q))")
        case (Inl e)
        then show ?thesis using Inr Jd Some et by (simp add: wq)
      next
        case D: (Inr D)
        let ?f = "vec_add (the_vec (h ! f))
                    (vec_scal (matvec (matmul (scal_mat w (mT D)) (C (load obj h))) eps) detJ)"
        let ?h = "h[f := Vec ?f]"
        have l: "load obj ?h = load obj h" using assms by (rule load_write)
        have ff: "the_vec (?h ! f) = ?f" using Cons.prems by simp
        have "f < length ?h" using Cons.prems by simp
        from Cons.IH [OF this]
        have "case f_loop (load obj h) nds eps wqs ?f of
            Inl e \<Rightarrow> fst (f_loop_h obj nds eps wqs f ?h) = Inl e
          | Inr fm \<Rightarrow> fst (f_loop_h obj nds eps wqs f ?h) = Inr () \<and>
                       the_vec (snd (f_loop_h obj nds eps wqs f ?h) ! f) = fm"
          by (simp only: l ff)
        then show ?thesis using Inr Jd Some D et by (simp add: wq cong: sum.case_cong)
      qed
    qed
  qed
qed

lemma fields_below_mono: "fields_below obj n \<Longrightarrow> n \<le> m \<Longrightarrow> fields_below obj m"
  by (auto simp: fields_below_def list_all_iff)

lemma load_simps:
  "elements (load obj h) = obj_elements obj"
  "etype (load obj h) = obj_etype obj"
  "n_dofs (load obj h) = obj_n_dofs obj"
  "length (global_indices (load obj h)) = length (global_indices_at obj)"
  by (simp_all add: load_def)

lemma Solid_k_h_refines:
  assumes "fields_below obj (length h)"
  shows "case Solid_k (load obj h) j of
           Inl e \<Rightarrow> fst (Solid_k_h obj j h) = Inl e
         | Inr km \<Rightarrow> fst (Solid_k_h obj j h) = Inr (length h) \<and>
                      the_mat (snd (Solid_k_h obj j h) ! length h) = km"
proof (cases "length (obj_elements obj) \<le> j")
  case True
  then show ?thesis by (simp add: Solid_k_def Solid_k_h_def load_simps)
next
  case False
  show ?thesis
  proof (cases "take_rows (nodes (load obj h)) (obj_elements obj ! j)")
    case (Inl e)
    then show ?thesis using False by (simp add: Solid_k_def Solid_k_h_def load_simps)
  next
    case (Inr nds)
    show ?thesis
    proof (cases "obj_etype obj")
      case None
      then show ?thesis using False Inr by (simp add: Solid_k_def Solid_k_h_def load_simps)
    next
      case (Some et)
      let ?z = "zeros_mat (3 * et_nodes et) (3 * et_nodes et)"
      let ?h = "h @ [Mat ?z]"
      have l: "load obj ?h = load obj h" using assms by (rule load_alloc)
      have z: "the_mat (?h ! length h) = ?z" by simp
      have "length h < length ?h" by simp
      from k_loop_h_refines [OF assms order_refl this, of nds "quadrature et"]
      have r: "case k_loop (load obj h) nds (quadrature et) ?z of
            Inl e \<Rightarrow> fst (k_loop_h obj nds (quadrature et) (length h) ?h) = Inl e
          | Inr km \<Rightarrow> fst (k_loop_h obj nds (quadrature et) (length h) ?h) = Inr () \<and>
                       the_mat (snd (k_loop_h obj nds (quadrature et) (length h) ?h) ! length h) = km"
        by (simp only: l z)
      obtain r' h' where kh: "k_loop_h obj nds (quadrature et) (length h) ?h = (r', h')"
        by (cases "k_loop_h obj nds (quadrature et) (length h) ?h")
      show ?thesis
        using False Inr Some r kh
        by (auto simp: Solid_k_def Solid_k_h_def load_simps split: sum.splits)
    qed
  qed
qed

lemma Solid_f_h_refines:
  assumes "fields_below obj (length h)"
  shows "case Solid_f (load obj h) j eps of
           Inl e \<Rightarrow> fst (Solid_f_h obj j eps h) = Inl e
         | Inr fm \<Rightarrow> fst (Solid_f_h obj j eps h) = Inr (length h) \<and>
                      the_vec (snd (Solid_f_h obj j eps h) ! length h) = fm"
proof (cases "length (obj_elements obj) \<le> j")
  case True
  then show ?thesis by (simp add: Solid_f_def Solid_f_h_def load_simps)
next
  case False
  show ?thesis
  proof (cases "take_rows (nodes (load obj h)) (obj_elements obj ! j)")
    case (Inl e)
    then show ?thesis using False by (simp add: Solid_f_def Solid_f_h_def load_simps)
  next
    case (Inr nds)
    show ?thesis
    proof (cases "obj_etype obj")
      case None
      then show ?thesis using False Inr by (simp add: Solid_f_def Solid_f_h_def load_simps)
    next
      case (Some et)
      let ?z = "zeros_vec (3 * et_nodes et)"
      let ?h = "h @ [Vec ?z]"
      have l: "load obj ?h = load obj h" using assms by (rule load_alloc)
      have z: "the_vec (?h ! length h) = ?z" by simp
      have "length h < length ?h" by simp
      from f_loop_h_refines [OF assms order_refl this, of nds eps "quadrature et"]
      have r: "case f_loop (load obj h) nds eps (quadrature et) ?z of
            Inl e \<Rightarrow> fst (f_loop_h obj nds eps (quadrature et) (length h) ?h) = Inl e
          | Inr fm \<Rightarrow> fst (f_loop_h obj nds eps (quadrature et) (length h) ?h) = Inr () \<and>
                       the_vec (snd (f_loop_h obj nds eps (quadrature et) (length h) ?h) ! length h) = fm"
        by (simp only: l z)
      obtain r' h' where fh: "f_loop_h obj nds eps (quadrature et) (length h) ?h = (r', h')"
        by (cases "f_loop_h obj nds eps (quadrature et) (length h) ?h")
      show ?thesis
        using False Inr Some r fh
        by (auto simp: Solid_f_def Solid_f_h_def load_simps split: sum.splits)
    qed
  qed
qed

lemma stiffness_loop_h_refines:
  assumes "fields_below obj n" "n \<le> K"
  shows "K < length h \<Longrightarrow>
         (case stiffness_loop (load obj h) js (the_mat (h ! K)) of
            Inl e \<Rightarrow> fst (stiffness_loop_h obj js K h) = Inl e
          | Inr Km \<Rightarrow> fst (stiffness_loop_h obj js K h) = Inr () \<and>
                       the_mat (snd (stiffness_loop_h obj js K h) ! K) = Km)"
proof (induction js arbitrary: h)
  case Nil
  show ?case by simp
next
  case (Cons j js)
  have nh: "n \<le> length h" using assms(2) Cons.prems by simp
  have fb: "fields_below obj (length h)" using assms(1) nh by (rule fields_below_mono)
  show ?case
  proof (cases "length (global_indices_at obj) \<le> j")
    case True
    then show ?thesis by (simp add: load_simps)
  next
    case False
    obtain X Y where xy: "global_indices (load obj h) ! j = (X, Y)"
      by (cases "global_indices (load obj h) ! j")
    show ?thesis
    proof (cases "index2 (the_mat (h ! K)) X Y")
      case (Inl e)
      then show ?thesis using False xy by (simp add: load_simps)
    next
      case (Inr Kg)
      obtain r h' where k: "Solid_k_h obj j h = (r, h')" by (cases "Solid_k_h obj j h")
      have p: "preserved (length h) h h'"
        using Solid_k_h_preserved [OF order_refl, of h obj j] k by simp
      note ref = Solid_k_h_refines [OF fb, of j]
      show ?thesis
      proof (cases "Solid_k (load obj h) j")
        case Inl': (Inl e)
        then show ?thesis using False xy Inr k ref by (simp add: load_simps)
      next
        case km: (Inr km)
        then have r: "r = Inr (length h)" and hk: "the_mat (h' ! length h) = km"
          using ref k by simp_all
        let ?Km = "index_put2 (the_mat (h ! K)) X Y (mat_add Kg km)"
        let ?h = "h'[K := Mat (index_put2 (the_mat (h' ! K)) X Y (mat_add Kg (the_mat (h' ! length h))))]"
        have hK: "h' ! K = h ! K" using preserved_nth [OF p, of K] Cons.prems by simp
        have lh': "length h \<le> length h'" using p by (rule length_preserved)
        have l1: "load obj h' = load obj h" using load_preserved [OF fb p] by simp
        have l2: "load obj ?h = load obj h'" using assms by (rule load_write)
        have K2: "the_mat (?h ! K) = ?Km" using Cons.prems lh' by (simp add: hK hk)
        have "K < length ?h" using Cons.prems lh' by simp
        from Cons.IH [OF this]
        have "case stiffness_loop (load obj h) js ?Km of
            Inl e \<Rightarrow> fst (stiffness_loop_h obj js K ?h) = Inl e
          | Inr Km \<Rightarrow> fst (stiffness_loop_h obj js K ?h) = Inr () \<and>
                       the_mat (snd (stiffness_loop_h obj js K ?h) ! K) = Km"
          by (simp only: l1 l2 K2)
        then show ?thesis
          using False xy Inr k r km by (simp add: load_simps cong: sum.case_cong)
      qed
    qed
  qed
qed

lemma Solid_stiffness_h_refines:
  assumes "fields_below obj (length h)"
  shows "case Solid_stiffness (load obj h) of
           Inl e \<Rightarrow> fst (Solid_stiffness_h obj h) = Inl e
         | Inr Km \<Rightarrow> fst (Solid_stiffness_h obj h) = Inr (length h) \<and>
                      the_mat (snd (Solid_stiffness_h obj h) ! length h) = Km"
proof -
  let ?z = "zeros_mat (obj_n_dofs obj) (obj_n_dofs obj)"
  let ?h = "h @ [Mat ?z]"
  let ?js = "[0..<length (obj_elements obj)]"
  have l: "load obj ?h = load obj h" using assms by (rule load_alloc)
  have z: "the_mat (?h ! length h) = ?z" by simp
  have "length h < length ?h" by simp
  from stiffness_loop_h_refines [OF assms order_refl this, of ?js]
  have r: "case stiffness_loop (load obj h) ?js ?z of
            Inl e \<Rightarrow> fst (stiffness_loop_h obj ?js (length h) ?h) = Inl e
          | Inr Km \<Rightarrow> fst (stiffness_loop_h obj ?js (length h) ?h) = Inr () \<and>
                       the_mat (snd (stiffness_loop_h obj ?js (length h) ?h) ! length h) = Km"
    by (simp only: l z)
  obtain r' h' where sh: "stiffness_loop_h obj ?js (length h) ?h = (r', h')"
    by (cases "stiffness_loop_h obj ?js (length h) ?h")
  show ?thesis
    using r sh by (auto simp: Solid_stiffness_def Solid_stiffness_h_def load_simps split: sum.splits)
qed

lemma inelastic_loop_h_refines:
  assumes "fields_below obj n" "n \<le> F"
  shows "F < length h \<Longrightarrow>
         (case inelastic_loop (load obj h) jes (the_vec (h ! F)) of
            Inl e \<Rightarrow> fst (inelastic_loop_h obj jes F h) = Inl e
          | Inr Fm \<Rightarrow> fst (inelastic_loop_h obj jes F h) = Inr () \<and>
                       the_vec (snd (inelastic_loop_h obj jes F h) ! F) = Fm)"
proof (induction jes arbitrary: h)
  case Nil
  show ?case by simp
next
  case (Cons je jes)
  obtain j eps where je: "je = (j, eps)" by (cases je)
  have nh: "n \<le> length h" using assms(2) Cons.prems by simp
  have fb: "fields_below obj (length h)" using assms(1) nh by (rule fields_below_mono)
  show ?case
  proof (cases "length (global_indices_at obj) \<le> j")
    case True
    then show ?thesis by (simp add: je load_simps)
  next
    case False
    let ?X = "fst (global_indices (load obj h) ! j)"
    show ?thesis
    proof (cases "index1 (the_vec (h ! F)) ?X")
      case (Inl e)
      then show ?thesis using False by (simp add: je load_simps)
    next
      case (Inr Fg)
      obtain r h' where f: "Solid_f_h obj j eps h = (r, h')" by (cases "Solid_f_h obj j eps h")
      have p: "preserved (length h) h h'"
        using Solid_f_h_preserved [OF order_refl, of h obj j eps] f by simp
      note ref = Solid_f_h_refines [OF fb, of j eps]
      show ?thesis
      proof (cases "Solid_f (load obj h) j eps")
        case Inl': (Inl e)
        then show ?thesis using False Inr f ref by (simp add: je load_simps)
      next
        case fm: (Inr fm)
        then have r: "r = Inr (length h)" and hf: "the_vec (h' ! length h) = fm"
          using ref f by simp_all
        let ?Fm = "index_put1 (the_vec (h ! F)) ?X (map (\<lambda>row. vec_add row fm) Fg)"
        let ?h = "h'[F := Vec (index_put1 (the_vec (h' ! F)) ?X
                                 (map (\<lambda>row. vec_add row (the_vec (h' ! length h))) Fg))]"
        have hF: "h' ! F = h ! F" using preserved_nth [OF p, of F] Cons.prems by simp
        have lh': "length h \<le> length h'" using p by (rule length_preserved)
        have l1: "load obj h' = load obj h" using load_preserved [OF fb p] by simp
        have l2: "load obj ?h = load obj h'" using assms by (rule load_write)
        have F2: "the_vec (?h ! F) = ?Fm" using Cons.prems lh' by (simp add: hF hf)
        have "F < length ?h" using Cons.prems lh' by simp
        from Cons.IH [OF this]
        have "case inelastic_loop (load obj h) jes ?Fm of
            Inl e \<Rightarrow> fst (inelastic_loop_h obj jes F ?h) = Inl e
          | Inr Fm \<Rightarrow> fst (inelastic_loop_h obj jes F ?h) = Inr () \<and>
                       the_vec (snd (inelastic_loop_h obj jes F ?h) ! F) = Fm"
          by (simp only: l1 l2 F2)
        then show ?thesis
          using False Inr f r fm by (simp add: je load_simps cong: sum.case_cong)
      qed
    qed
  qed
qed

lemma stiffness_loop_h_length:
  "length h \<le> length (snd (stiffness_loop_h obj js K h))"
  using stiffness_loop_h_preserved [of 0 K h obj js] by (simp add: preserved_def)

lemma inelastic_loop_h_length:
  "length h \<le> length (snd (inelastic_loop_h obj jes F h))"
  using inelastic_loop_h_preserved [of 0 F h obj jes] by (simp add: preserved_def)

lemma Solid_stiffness_h_length: "length h < length (snd (Solid_stiffness_h obj h))"
proof -
  let ?h = "h @ [Mat (zeros_mat (obj_n_dofs obj) (obj_n_dofs obj))]"
  have "length ?h \<le> length (snd (stiffness_loop_h obj [0..<length (obj_elements obj)] (length h) ?h))"
    by (rule stiffness_loop_h_length)
  then show ?thesis
    by (auto simp: Solid_stiffness_h_def split: prod.splits sum.splits)
qed

lemma Solid_solve_h_refines:
  assumes fb: "fields_below obj (length h)"
  shows "case Solid_solve (load obj h) of
           Inl e \<Rightarrow> fst (Solid_solve_h obj h) = Inl e
         | Inr (u, f) \<Rightarrow>
             (case Solid_solve_h obj h of
                (Inl e, h') \<Rightarrow> False
              | (Inr (au, af), h') \<Rightarrow>
                  length h \<le> au \<and> au < length h' \<and> af < length h' \<and>
                  u = reshape3 (the_vec (h' ! au)) \<and> f = reshape3 (the_vec (h' ! af)))"
proof -
  let ?p = "load obj h"
  obtain r1 h1 where s: "Solid_stiffness_h obj h = (r1, h1)" by (cases "Solid_stiffness_h obj h")
  have p1: "preserved (length h) h h1" using Solid_stiffness_h_preserved [of h obj] s by simp
  have len1: "length h < length h1" using Solid_stiffness_h_length [of h obj] s by simp
  have l1: "load obj h1 = ?p" using load_preserved [OF fb p1] by simp
  have fb1: "fields_below obj (length h1)" using fb len1 by (intro fields_below_mono [OF fb]) simp
  note ref1 = Solid_stiffness_h_refines [OF fb]
  show ?thesis
  proof (cases "Solid_stiffness ?p")
    case (Inl e)
    then show ?thesis using ref1 s by (simp add: Solid_solve_def Solid_solve_h_def)
  next
    case Km: (Inr Km)
    then have r1: "r1 = Inr (length h)" and K1: "the_mat (h1 ! length h) = Km"
      using ref1 s by simp_all
    let ?z = "Vec (zeros_vec (obj_n_dofs obj))"
    let ?h1 = "h1 @ [?z]"
    let ?F = "length h1"
    let ?I = "case strains ?p of
                None \<Rightarrow> (Inr (), ?h1)
              | Some ss \<Rightarrow> inelastic_loop_h obj (zip [0..<length ss] ss) ?F ?h1"
    obtain r2 h2 where i: "?I = (r2, h2)" by (cases ?I)
    have l1': "load obj ?h1 = ?p" using load_alloc [OF fb1] l1 by simp
    have p2: "preserved ?F ?h1 h2"
    proof (cases "strains ?p")
      case None
      then show ?thesis using i by (simp add: preserved_refl)
    next
      case (Some ss)
      then show ?thesis
        using inelastic_loop_h_preserved [of ?F ?F ?h1 obj "zip [0..<length ss] ss"] i by simp
    qed
    have len2: "length ?h1 \<le> length h2" using p2 by (rule length_preserved)
    have K2: "the_mat (h2 ! length h) = Km"
      using preserved_nth [OF p2, of "length h"] len1 K1 by (simp add: nth_append)
    have l2: "load obj h2 = ?p"
      using load_preserved [OF fb1 p2] l1' by simp
    have ref2: "case inelastic_forces ?p of
                  Inl e \<Rightarrow> r2 = Inl e
                | Inr Fm \<Rightarrow> r2 = Inr () \<and> the_vec (h2 ! ?F) = Fm"
    proof (cases "strains ?p")
      case None
      then show ?thesis using i by (auto simp: inelastic_forces_def load_simps)
    next
      case (Some ss)
      have "?F < length ?h1" by simp
      from inelastic_loop_h_refines [OF fb1 order_refl this, of "zip [0..<length ss] ss"]
      show ?thesis using Some i
        by (simp add: inelastic_forces_def l1' load_simps cong: sum.case_cong)
    qed
    have unfold: "Solid_solve_h obj h =
      (case (r2, h2) of
         (Inl e, h2) \<Rightarrow> (Inl e, h2)
       | (Inr _, h2) \<Rightarrow>
           let F = length h1;
               K_red = reduced_stiffness (load obj h2) (the_mat (h2 ! length h));
               f_red = reduced_load (load obj h2) (the_mat (h2 ! length h)) (the_vec (h2 ! F))
           in (case linalg_solve K_red f_red of
                 None \<Rightarrow> (Inl NumericalError, h2)
               | Some u_red \<Rightarrow>
                   let u = length h2;
                       h3 = h2 @ [Vec (concat (displacements (load obj h2)))];
                       h4 = h3[u := Vec (put (the_vec (h3 ! u)) (uncon_dofs (load obj h2))
                                          u_red)];
                       f = length h4;
                       h5 = h4 @ [Vec (matvec (the_mat (h4 ! length h)) (the_vec (h4 ! u)))]
                   in (Inr (u, f), h5)))"
      using i by (simp add: Solid_solve_h_def s r1 l1)
    show ?thesis
    proof (cases "inelastic_forces ?p")
      case (Inl e)
      then show ?thesis using ref2 Km by (simp add: unfold Solid_solve_def)
    next
      case Fm: (Inr Fm)
      then have r2: "r2 = Inr ()" and F2: "the_vec (h2 ! ?F) = Fm" using ref2 by simp_all
      show ?thesis
      proof (cases "linalg_solve (reduced_stiffness ?p Km) (reduced_load ?p Km Fm)")
        case None
        then show ?thesis using Km Fm by (simp add: unfold Solid_solve_def r2 l2 K2 F2)
      next
        case (Some u_red)
        have lt: "length h < length h2" using len1 len2 by simp
        show ?thesis using Km Fm Some lt
          by (simp add: unfold Solid_solve_def r2 l2 K2 F2 Let_def nth_append)
      qed
    qed
  qed
qed

lemma Solid_solve_h_fresh:
  assumes "fst (Solid_solve_h obj h) = Inr (au, af)"
  shows "length h \<le> au \<and> af = Suc au"
proof -
  obtain r1 h1 where s: "Solid_stiffness_h obj h = (r1, h1)" by (cases "Solid_stiffness_h obj h")
  have len1: "length h < length h1" using Solid_stiffness_h_length [of h obj] s by simp
  show ?thesis
  proof (cases r1)
    case (Inl e)
    then show ?thesis using assms s by (simp add: Solid_solve_h_def)
  next
    case K: (Inr K)
    let ?h1 = "h1 @ [Vec (zeros_vec (obj_n_dofs obj))]"
    let ?in = "case strains (load obj h1) of
                   None \<Rightarrow> (Inr (), ?h1)
                 | Some ss \<Rightarrow> inelastic_loop_h obj (zip [0..<length ss] ss) (length h1) ?h1"
    obtain r2 h2 where i: "?in = (r2, h2)" by (cases ?in)
    have len2: "length ?h1 \<le> length h2"
    proof (cases "strains (load obj h1)")
      case None
      then show ?thesis using i by simp
    next
      case (Some ss)
      then show ?thesis
        using inelastic_loop_h_length [of ?h1 obj "zip [0..<length ss] ss" "length h1"] i by simp
    qed
    show ?thesis
    proof (cases r2)
      case (Inl e)
      then show ?thesis using assms s K i by (simp add: Solid_solve_h_def)
    next
      case r2: (Inr x)
      show ?thesis
      proof (cases "linalg_solve (reduced_stiffness (load obj h2) (the_mat (h2 ! K)))
                       (reduced_load (load obj h2) (the_mat (h2 ! K)) (the_vec (h2 ! length h1)))")
        case None
        then show ?thesis using assms s K i r2 by (simp add: Solid_solve_h_def Let_def)
      next
        case (Some u_red)
        then show ?thesis using assms s K i r2 len1 len2
          by (auto simp: Solid_solve_h_def Let_def)
      qed
    qed
  qed
qed

lemma load_ex: "load ex_obj ex_store = ex_loaded"
  by (simp add: load_def ex_obj_def ex_store_def ex_loaded_def ex_solid_def)

lemma fields_below_notin: "fields_below obj n \<Longrightarrow> n \<le> a \<Longrightarrow> a \<notin> set (obj_addrs obj)"
  by (auto simp: fields_below_def list_all_iff)

subsection \<open>The frame of the solve\<close>

text \<open>
  Claim C9: \<open>solve\<close> mutates no field of the problem object. For an object whose tensor
  fields are cells of the store, the store after the call, whether it returned or raised,
  agrees with the store before the call on every cell that existed then; so nodes, forces,
  displacements, constraints, strains, the constitutive tensor and the global index maps,
  read through \<open>load\<close>, are what they were (elements and the scalar fields are plain
  values of the object, which no statement assigns). When the call returns, the solved
  displacements and the forces are in cells that are no field of the object: the values
  are written into the clone of the displacement array, not into the array.
\<close>

theorem Solid_solve_frame:
  assumes "obj_valid obj h"
  shows "take (length h) (snd (Solid_solve_h obj h)) = h \<and>
         load obj (snd (Solid_solve_h obj h)) = load obj h \<and>
         (case fst (Solid_solve_h obj h) of
            Inl e \<Rightarrow> True
          | Inr (au, af) \<Rightarrow> au \<notin> set (obj_addrs obj) \<and> af \<notin> set (obj_addrs obj))"
proof -
  have fb: "fields_below obj (length h)" using assms by (simp add: obj_valid_def)
  have p: "preserved (length h) h (snd (Solid_solve_h obj h))" by (rule Solid_solve_h_preserved)
  have 1: "take (length h) (snd (Solid_solve_h obj h)) = h" using p by (simp add: preserved_def)
  have 2: "load obj (snd (Solid_solve_h obj h)) = load obj h"
    using load_preserved [OF fb p] by simp
  have 3: "case fst (Solid_solve_h obj h) of
            Inl e \<Rightarrow> True
          | Inr (au, af) \<Rightarrow> au \<notin> set (obj_addrs obj) \<and> af \<notin> set (obj_addrs obj)"
  proof (cases "fst (Solid_solve_h obj h)")
    case (Inl e)
    then show ?thesis by simp
  next
    case (Inr r)
    obtain au af where r: "r = (au, af)" by (cases r)
    have "length h \<le> au \<and> af = Suc au" using Inr r by (intro Solid_solve_h_fresh) simp
    then show ?thesis using Inr r fields_below_notin [OF fb] by simp
  qed
  show ?thesis using 1 2 3 by simp
qed

text \<open>
  On the loaded tetrahedron the call returns; the seven cells of the object are unchanged,
  the solved displacements are in a later cell, and the displacement field still holds the
  prescribed values.
\<close>

theorem Solid_solve_frame_witness:
  "obj_valid ex_obj ex_store \<and>
   take 7 (snd (Solid_solve_h ex_obj ex_store)) = ex_store \<and>
   load ex_obj (snd (Solid_solve_h ex_obj ex_store)) = ex_loaded \<and>
   (case Solid_solve_h ex_obj ex_store of
      (Inl e, h') \<Rightarrow> False
    | (Inr (au, af), h') \<Rightarrow>
        7 \<le> au \<and>
        reshape3 (the_vec (h' ! au)) = [[0, 0, 0], [6, 1 / 2, 0], [- (1 / 2), 0, 0], [0, 0, 0]] \<and>
        the_mat (h' ! displacements_at ex_obj) = [[0, 0, 0], [0, 1 / 2, 0], [0, 0, 0], [0, 0, 0]])"
proof -
  have v: "obj_valid ex_obj ex_store"
    by (simp add: obj_valid_def fields_below_def obj_addrs_def ex_obj_def ex_store_def)
  have fb: "fields_below ex_obj (length ex_store)"
    using v by (simp add: obj_valid_def)
  have len: "length ex_store = 7" by (simp add: ex_store_def)
  note fr = Solid_solve_frame [OF v]
  have a: "take 7 (snd (Solid_solve_h ex_obj ex_store)) = ex_store" using fr len by simp
  have b: "load ex_obj (snd (Solid_solve_h ex_obj ex_store)) = ex_loaded"
    using fr load_ex by simp
  have d: "the_mat (snd (Solid_solve_h ex_obj ex_store) ! displacements_at ex_obj) =
           [[0, 0, 0], [0, 1 / 2, 0], [0, 0, 0], [0, 0, 0]]"
  proof -
    have "displacements (load ex_obj (snd (Solid_solve_h ex_obj ex_store))) =
          displacements ex_loaded" by (simp only: b)
    then show ?thesis by (simp add: load_def ex_loaded_def ex_solid_def)
  qed
  have c: "case Solid_solve_h ex_obj ex_store of
      (Inl e, h') \<Rightarrow> False
    | (Inr (au, af), h') \<Rightarrow>
        7 \<le> au \<and>
        reshape3 (the_vec (h' ! au)) = [[0, 0, 0], [6, 1 / 2, 0], [- (1 / 2), 0, 0], [0, 0, 0]] \<and>
        the_mat (h' ! displacements_at ex_obj) = [[0, 0, 0], [0, 1 / 2, 0], [0, 0, 0], [0, 0, 0]]"
    using Solid_solve_h_refines [OF fb] d
    by (simp add: load_ex Solid_solve_ex_loaded len split: prod.splits sum.splits)
  show ?thesis using v a b c by simp
qed

end
